theory Spec2Isabelle
  imports Complex_Main
begin

section \<open>The durable store (database.py)\<close>

text \<open>
  The store is the SQLite file behind \<^verbatim>\<open>AuctionDatabase\<close>: the tables \<^verbatim>\<open>auctions\<close> and
  \<^verbatim>\<open>bids\<close>, each a list of rows in insertion order, and the two AUTOINCREMENT counters.
  Column names are kept; \<^verbatim>\<open>auctions.id\<close> is \<open>auction_id\<close>, \<^verbatim>\<open>bids.id\<close> is \<open>bid_id\<close>, and
  the columns \<^verbatim>\<open>bids.auction_id\<close> and \<^verbatim>\<open>bids.created_at\<close> carry the prefix \<open>bid_\<close> because a
  record field is a global name.

  Modelling decisions, all of them visible in the definitions below:
  \<^item> Instants (\<^verbatim>\<open>datetime\<close> values and their ISO texts) are real numbers of seconds. Every
    function that reads the clock takes the instant \<open>now\<close> as an argument.
  \<^item> Prices and amounts (SQLite REAL, Python \<^verbatim>\<open>float\<close>) are exact real numbers: rounding,
    infinities and NaN of IEEE arithmetic are outside the model.
  \<^item> The column \<^verbatim>\<open>image_urls\<close> holds the list of URLs that its JSON text encodes.
  \<^item> The status column only ever holds \<^verbatim>\<open>'active'\<close> (the column default) or \<^verbatim>\<open>'ended'\<close>.
  \<^item> A statement of the store may raise (lock contention, I/O). Which statements raise
    during one call is given by an argument \<open>f\<close> of type \<open>faults\<close>: \<open>f c\<close> holds when the
    statement labelled \<open>c\<close> raises after the retries of \<^verbatim>\<open>_safe_execute\<close> and
    \<^verbatim>\<open>_safe_commit\<close>. A \<open>database\<close> value is the committed content of the tables: a
    statement that raises commits nothing, and a transaction that is rolled back (also
    by the handler of \<^verbatim>\<open>place_bid_optimized\<close>) leaves the tables as they were at BEGIN.
\<close>

type_synonym time = real

datatype status = Active | Ended

record auction_row =
  auction_id :: nat
  guild_id :: nat
  channel_id :: nat
  creator_id :: nat
  title :: string
  description :: string
  starting_price :: real
  current_price :: real
  min_increment :: real
  payment_material :: string
  image_urls :: "string list option"
  duration_hours :: int
  created_at :: time
  ends_at :: time
  status :: status
  winner_id :: "nat option"
  message_id :: "nat option"
  bid_count :: nat
  last_updated :: time

record bid_row =
  bid_id :: nat
  bid_auction_id :: nat
  user_id :: nat
  amount :: real
  bid_created_at :: time
  is_quick_bid :: bool

record database =
  auctions :: "auction_row list"
  bids :: "bid_row list"
  auction_seq :: nat
  bid_seq :: nat

definition empty_database :: database where
  "empty_database = \<lparr>auctions = [], bids = [], auction_seq = 0, bid_seq = 0\<rparr>"

datatype db_call =
    BeginImmediate | SelectActive | Rollback | SelectPrevious | InsertBid | UpdatePrice
  | Commit | GetAuction | GetBids | GetActive | GetExpired | EndAuction | CreateAuction
  | UpdateMessageId

type_synonym faults = "db_call \<Rightarrow> bool"

definition no_faults :: faults where
  "no_faults = (\<lambda>c. False)"

text \<open>The dictionary \<^verbatim>\<open>auction_data\<close> passed to \<^verbatim>\<open>AuctionDatabase.create_auction\<close>.\<close>

record auction_data =
  data_guild_id :: nat
  data_channel_id :: nat
  data_creator_id :: nat
  data_title :: string
  data_description :: string
  data_starting_price :: real
  data_min_increment :: real
  data_payment_material :: string
  data_image_urls :: "string list option"
  data_duration_hours :: int
  data_created_at :: time
  data_ends_at :: time
  data_message_id :: "nat option"

text \<open>
  \<^verbatim>\<open>AuctionDatabase.create_auction\<close>: one INSERT and a commit. The current price starts at
  the starting price; status, winner and bid count take the column defaults. The call
  raises when the store does (\<open>None\<close>), else returns the new id.
\<close>

definition db_create_auction ::
  "faults \<Rightarrow> time \<Rightarrow> database \<Rightarrow> auction_data \<Rightarrow> (nat \<times> database) option" where
  "db_create_auction f now db d =
     (if f CreateAuction then None
      else
        let new_id = Suc (auction_seq db);
            row = \<lparr>auction_id = new_id,
                   guild_id = data_guild_id d,
                   channel_id = data_channel_id d,
                   creator_id = data_creator_id d,
                   title = data_title d,
                   description = data_description d,
                   starting_price = data_starting_price d,
                   current_price = data_starting_price d,
                   min_increment = data_min_increment d,
                   payment_material = data_payment_material d,
                   image_urls = data_image_urls d,
                   duration_hours = data_duration_hours d,
                   created_at = data_created_at d,
                   ends_at = data_ends_at d,
                   status = Active,
                   winner_id = None,
                   message_id = data_message_id d,
                   bid_count = 0,
                   last_updated = now\<rparr>
        in Some (new_id, db\<lparr>auctions := auctions db @ [row], auction_seq := new_id\<rparr>))"

text \<open>
  The query \<^verbatim>\<open>SELECT ... FROM bids WHERE auction_id = ? ORDER BY created_at DESC\<close>. SQL leaves
  the order of rows with equal \<^verbatim>\<open>created_at\<close> open; here the later row comes first.
\<close>

definition bids_by_time_desc :: "database \<Rightarrow> nat \<Rightarrow> bid_row list" where
  "bids_by_time_desc db aid =
     sort_key (\<lambda>b. - bid_created_at b) (rev (filter (\<lambda>b. bid_auction_id b = aid) (bids db)))"

datatype bid_error =
    NotFoundOrInactive    \<comment> \<open>\<^verbatim>\<open>"Subasta no encontrada o inactiva"\<close>\<close>
  | SelfBid               \<comment> \<open>\<^verbatim>\<open>"No puedes pujar en tu propia subasta"\<close>\<close>
  | Expired               \<comment> \<open>\<^verbatim>\<open>"Subasta expirada"\<close>\<close>
  | BelowMinimum real     \<comment> \<open>\<^verbatim>\<open>f"Puja minima: {min_bid}"\<close>\<close>
  | InternalError         \<comment> \<open>\<^verbatim>\<open>"Error interno del servidor"\<close>\<close>

record notification_info =
  previous_user_id :: "nat option"
  previous_amount :: real
  new_amount :: real
  info_auction_title :: string
  info_auction_id :: nat
  info_user_id :: nat
  info_guild_id :: nat
  info_channel_id :: nat
  info_payment_material :: string

datatype bid_result = Accepted notification_info | Rejected bid_error

text \<open>
  \<^verbatim>\<open>place_bid_optimized\<close>, statement by statement. Every \<^verbatim>\<open>_safe_execute\<close> and the
  \<^verbatim>\<open>_safe_commit\<close> may raise; the handler rolls back and returns the internal error. The row
  is the one the SELECT inside the transaction returns (\<^verbatim>\<open>WHERE id = ? AND status = 'active'\<close>).
\<close>

definition place_bid_optimized ::
  "faults \<Rightarrow> time \<Rightarrow> database \<Rightarrow> nat \<Rightarrow> nat \<Rightarrow> real \<Rightarrow> bool \<Rightarrow> bid_result \<times> database" where
  "place_bid_optimized f now db aid uid amt quick =
     (if f BeginImmediate \<or> f SelectActive then (Rejected InternalError, db)
      else
        case find (\<lambda>a. auction_id a = aid \<and> status a = Active) (auctions db) of
          None \<Rightarrow>
            if f Rollback then (Rejected InternalError, db)
            else (Rejected NotFoundOrInactive, db)
        | Some a \<Rightarrow>
            if uid = creator_id a then
              (if f Rollback then (Rejected InternalError, db) else (Rejected SelfBid, db))
            else if now \<ge> ends_at a then
              (if f Rollback then (Rejected InternalError, db) else (Rejected Expired, db))
            else
              let min_bid = current_price a + min_increment a in
              if amt < min_bid then
                (if f Rollback then (Rejected InternalError, db)
                 else (Rejected (BelowMinimum min_bid), db))
              else if f SelectPrevious \<or> f InsertBid \<or> f UpdatePrice \<or> f Commit then
                (Rejected InternalError, db)
              else
                let previous_bid = (case bids_by_time_desc db aid of [] \<Rightarrow> None | b # _ \<Rightarrow> Some b);
                    new_bid = \<lparr>bid_id = Suc (bid_seq db), bid_auction_id = aid, user_id = uid,
                               amount = amt, bid_created_at = now, is_quick_bid = quick\<rparr>;
                    db' = db\<lparr>bids := bids db @ [new_bid],
                             bid_seq := Suc (bid_seq db),
                             auctions := map (\<lambda>r. if auction_id r = aid
                                                    then r\<lparr>current_price := amt,
                                                           bid_count := Suc (bid_count r),
                                                           last_updated := now\<rparr>
                                                    else r) (auctions db)\<rparr>
                in (Accepted \<lparr>previous_user_id = map_option user_id previous_bid,
                              previous_amount = (case previous_bid of None \<Rightarrow> current_price a
                                                 | Some b \<Rightarrow> amount b),
                              new_amount = amt,
                              info_auction_title = title a,
                              info_auction_id = aid,
                              info_user_id = uid,
                              info_guild_id = guild_id a,
                              info_channel_id = channel_id a,
                              info_payment_material = payment_material a\<rparr>, db'))"

text \<open>\<^verbatim>\<open>get_auction\<close>: \<^verbatim>\<open>SELECT * FROM auctions WHERE id = ? LIMIT 1\<close>; an exception gives \<^verbatim>\<open>None\<close>.\<close>

definition get_auction :: "faults \<Rightarrow> database \<Rightarrow> nat \<Rightarrow> auction_row option" where
  "get_auction f db aid =
     (if f GetAuction then None else find (\<lambda>a. auction_id a = aid) (auctions db))"

text \<open>\<^verbatim>\<open>get_auction_bids\<close>: the newest \<open>limit\<close> bids; an exception gives the empty list.\<close>

definition get_auction_bids :: "faults \<Rightarrow> database \<Rightarrow> nat \<Rightarrow> nat \<Rightarrow> bid_row list" where
  "get_auction_bids f db aid limit =
     (if f GetBids then [] else take limit (bids_by_time_desc db aid))"

text \<open>\<^verbatim>\<open>get_active_auctions\<close>: \<^verbatim>\<open>WHERE guild_id = ? AND status = 'active' ORDER BY ends_at ASC LIMIT 50\<close>.\<close>

definition get_active_auctions :: "faults \<Rightarrow> database \<Rightarrow> nat \<Rightarrow> auction_row list" where
  "get_active_auctions f db g =
     (if f GetActive then []
      else take 50 (sort_key ends_at
             (filter (\<lambda>a. guild_id a = g \<and> status a = Active) (auctions db))))"

text \<open>\<^verbatim>\<open>get_expired_auctions\<close>: \<^verbatim>\<open>WHERE status = 'active' AND ends_at <= now\<close>.\<close>

definition get_expired_auctions :: "faults \<Rightarrow> time \<Rightarrow> database \<Rightarrow> auction_row list" where
  "get_expired_auctions f now db =
     (if f GetExpired then []
      else filter (\<lambda>a. status a = Active \<and> ends_at a \<le> now) (auctions db))"

text \<open>
  \<^verbatim>\<open>AuctionDatabase.end_auction\<close>: one UPDATE by id that sets status and winner together,
  then a commit. It returns \<^verbatim>\<open>False\<close> when the store raises and \<^verbatim>\<open>True\<close> otherwise, also
  when no row has the id.
\<close>

definition db_end_auction ::
  "faults \<Rightarrow> time \<Rightarrow> database \<Rightarrow> nat \<Rightarrow> nat option \<Rightarrow> bool \<times> database" where
  "db_end_auction f now db aid winner =
     (if f EndAuction then (False, db)
      else (True, db\<lparr>auctions := map (\<lambda>r. if auction_id r = aid
                                           then r\<lparr>status := Ended, winner_id := winner,
                                                  last_updated := now\<rparr>
                                           else r) (auctions db)\<rparr>))"

text \<open>\<^verbatim>\<open>update_auction_message_id\<close>: an exception is logged and swallowed.\<close>

definition update_auction_message_id ::
  "faults \<Rightarrow> time \<Rightarrow> database \<Rightarrow> nat \<Rightarrow> nat \<Rightarrow> database" where
  "update_auction_message_id f now db aid mid =
     (if f UpdateMessageId then db
      else db\<lparr>auctions := map (\<lambda>r. if auction_id r = aid
                                    then r\<lparr>message_id := Some mid, last_updated := now\<rparr>
                                    else r) (auctions db)\<rparr>)"

section \<open>The TTL cache (cache_manager.py)\<close>

text \<open>
  The dictionaries of \<^verbatim>\<open>CacheManager\<close>, as maps from auction id (user id for the user
  cache). The cache manager reads the store through \<^verbatim>\<open>self.db\<close>, here the arguments \<open>f\<close>
  and \<open>db\<close>. \<^verbatim>\<open>asyncio\<close> runs a coroutine without interruption between two \<^verbatim>\<open>await\<close>s
  that suspend, so each function below is one state transformer.
\<close>

record cache_manager =
  auction_cache :: "nat \<rightharpoonup> auction_row"
  auction_cache_ttl :: "nat \<rightharpoonup> time"
  bid_cache :: "nat \<rightharpoonup> bid_row list"
  bid_cache_ttl :: "nat \<rightharpoonup> time"
  user_cache :: "nat \<rightharpoonup> string"
  user_cache_ttl :: "nat \<rightharpoonup> time"
  bid_counts :: "nat \<rightharpoonup> nat"

definition empty_cache :: cache_manager where
  "empty_cache = \<lparr>auction_cache = Map.empty, auction_cache_ttl = Map.empty,
     bid_cache = Map.empty, bid_cache_ttl = Map.empty, user_cache = Map.empty,
     user_cache_ttl = Map.empty, bid_counts = Map.empty\<rparr>"

definition auction_ttl :: real where "auction_ttl = 30"
definition bid_ttl :: real where "bid_ttl = 10"
definition user_ttl :: real where "user_ttl = 300"

text \<open>
  The test that opens \<^verbatim>\<open>get_auction_cached\<close>: the id is in the cache, it is in the TTL
  table, and \<open>now\<close> is before the expiry. \<open>None\<close> is a miss.
\<close>

definition auction_cache_lookup :: "time \<Rightarrow> cache_manager \<Rightarrow> nat \<Rightarrow> auction_row option" where
  "auction_cache_lookup now c aid =
     (case auction_cache c aid of
        None \<Rightarrow> None
      | Some a \<Rightarrow> (case auction_cache_ttl c aid of
                     None \<Rightarrow> None
                   | Some t \<Rightarrow> if now < t then Some a else None))"

definition bid_cache_lookup :: "time \<Rightarrow> cache_manager \<Rightarrow> nat \<Rightarrow> bid_row list option" where
  "bid_cache_lookup now c aid =
     (case bid_cache c aid of
        None \<Rightarrow> None
      | Some bl \<Rightarrow> (case bid_cache_ttl c aid of
                      None \<Rightarrow> None
                    | Some t \<Rightarrow> if now < t then Some bl else None))"

text \<open>
  \<^verbatim>\<open>get_auction_cached\<close>: a hit returns a copy of the entry; a miss reads the store and, when
  the row exists, stores a copy with expiry \<open>now + auction_ttl\<close>. An absent row is not cached.
\<close>

definition get_auction_cached ::
  "faults \<Rightarrow> time \<Rightarrow> database \<Rightarrow> cache_manager \<Rightarrow> nat \<Rightarrow> auction_row option \<times> cache_manager" where
  "get_auction_cached f now db c aid =
     (case auction_cache_lookup now c aid of
        Some a \<Rightarrow> (Some a, c)
      | None \<Rightarrow>
          (case get_auction f db aid of
             Some a \<Rightarrow>
               (Some a, c\<lparr>auction_cache := (auction_cache c)(aid \<mapsto> a),
                          auction_cache_ttl := (auction_cache_ttl c)(aid \<mapsto> now + auction_ttl)\<rparr>)
           | None \<Rightarrow> (None, c)))"

text \<open>
  \<^verbatim>\<open>get_auction_bids_cached\<close>: a hit returns the first \<open>limit\<close> cached bids; a miss reads
  \<open>max (limit * 3) 20\<close> bids and caches them when there is at least one.
\<close>

definition get_auction_bids_cached ::
  "faults \<Rightarrow> time \<Rightarrow> database \<Rightarrow> cache_manager \<Rightarrow> nat \<Rightarrow> nat \<Rightarrow> bid_row list \<times> cache_manager" where
  "get_auction_bids_cached f now db c aid limit =
     (case bid_cache_lookup now c aid of
        Some cached_bids \<Rightarrow> (take limit cached_bids, c)
      | None \<Rightarrow>
          (let bl = get_auction_bids f db aid (max (limit * 3) 20) in
           if bl \<noteq> [] then
             (take limit bl, c\<lparr>bid_cache := (bid_cache c)(aid \<mapsto> bl),
                                bid_cache_ttl := (bid_cache_ttl c)(aid \<mapsto> now + bid_ttl)\<rparr>)
           else ([], c)))"

text \<open>\<^verbatim>\<open>invalidate_auction_cache\<close>: five \<^verbatim>\<open>pop(auction_id, None)\<close> with no \<^verbatim>\<open>await\<close> between.\<close>

definition invalidate_auction_cache :: "cache_manager \<Rightarrow> nat \<Rightarrow> cache_manager" where
  "invalidate_auction_cache c aid =
     c\<lparr>auction_cache := (auction_cache c)(aid := None),
       auction_cache_ttl := (auction_cache_ttl c)(aid := None),
       bid_cache := (bid_cache c)(aid := None),
       bid_cache_ttl := (bid_cache_ttl c)(aid := None),
       bid_counts := (bid_counts c)(aid := None)\<rparr>"

definition invalidate_bid_cache :: "cache_manager \<Rightarrow> nat \<Rightarrow> cache_manager" where
  "invalidate_bid_cache c aid =
     c\<lparr>bid_cache := (bid_cache c)(aid := None),
       bid_cache_ttl := (bid_cache_ttl c)(aid := None),
       bid_counts := (bid_counts c)(aid := None)\<rparr>"

definition update_auction_cache :: "time \<Rightarrow> cache_manager \<Rightarrow> nat \<Rightarrow> auction_row \<Rightarrow> cache_manager" where
  "update_auction_cache now c aid a =
     c\<lparr>auction_cache := (auction_cache c)(aid \<mapsto> a),
       auction_cache_ttl := (auction_cache_ttl c)(aid \<mapsto> now + auction_ttl)\<rparr>"

definition increment_bid_count ::
  "faults \<Rightarrow> database \<Rightarrow> cache_manager \<Rightarrow> nat \<Rightarrow> nat \<times> cache_manager" where
  "increment_bid_count f db c aid =
     (let n = (case bid_counts c aid of
                 None \<Rightarrow> length (get_auction_bids f db aid 1000)
               | Some k \<Rightarrow> k)
      in (Suc n, c\<lparr>bid_counts := (bid_counts c)(aid \<mapsto> Suc n)\<rparr>))"

definition get_bid_count ::
  "faults \<Rightarrow> database \<Rightarrow> cache_manager \<Rightarrow> nat \<Rightarrow> nat \<times> cache_manager" where
  "get_bid_count f db c aid =
     (case bid_counts c aid of
        Some k \<Rightarrow> (k, c)
      | None \<Rightarrow>
          (let n = length (get_auction_bids f db aid 1000)
           in (n, c\<lparr>bid_counts := (bid_counts c)(aid \<mapsto> n)\<rparr>)))"

definition preload_auction_data ::
  "faults \<Rightarrow> time \<Rightarrow> database \<Rightarrow> cache_manager \<Rightarrow> nat \<Rightarrow> cache_manager" where
  "preload_auction_data f now db c aid =
     (let c1 = snd (get_auction_cached f now db c aid)
      in snd (get_auction_bids_cached f now db c1 aid 10))"

text \<open>
  \<^verbatim>\<open>cleanup_expired_cache\<close>: for every id whose TTL entry is at or before \<open>now\<close>, the value
  and the TTL entry are popped; the three caches are swept independently.
\<close>

definition sweep :: "time \<Rightarrow> (nat \<rightharpoonup> time) \<Rightarrow> (nat \<rightharpoonup> 'v) \<Rightarrow> (nat \<rightharpoonup> 'v)" where
  "sweep now ttl m =
     (\<lambda>k. case ttl k of None \<Rightarrow> m k | Some t \<Rightarrow> if now \<ge> t then None else m k)"

definition cleanup_expired_cache :: "time \<Rightarrow> cache_manager \<Rightarrow> cache_manager" where
  "cleanup_expired_cache now c =
     c\<lparr>auction_cache := sweep now (auction_cache_ttl c) (auction_cache c),
       auction_cache_ttl := sweep now (auction_cache_ttl c) (auction_cache_ttl c),
       bid_cache := sweep now (bid_cache_ttl c) (bid_cache c),
       bid_cache_ttl := sweep now (bid_cache_ttl c) (bid_cache_ttl c),
       user_cache := sweep now (user_cache_ttl c) (user_cache c),
       user_cache_ttl := sweep now (user_cache_ttl c) (user_cache_ttl c)\<rparr>"

definition cleanup_cache :: "cache_manager \<Rightarrow> cache_manager" where
  "cleanup_cache c = empty_cache"

text \<open>
  The operations of the cache manager as a datatype, to speak about sequences of calls.
  Each call comes with the faults, the instant and the store content of its moment.
\<close>

datatype cache_op =
    GetAuctionCached nat
  | GetAuctionBidsCached nat nat
  | InvalidateAuctionCache nat
  | InvalidateBidCache nat
  | UpdateAuctionCache nat auction_row
  | IncrementBidCount nat
  | GetBidCount nat
  | PreloadAuctionData nat
  | CleanupExpiredCache
  | CleanupCache

fun cache_step :: "faults \<times> time \<times> database \<times> cache_op \<Rightarrow> cache_manager \<Rightarrow> cache_manager" where
  "cache_step (f, now, db, GetAuctionCached aid) c = snd (get_auction_cached f now db c aid)"
| "cache_step (f, now, db, GetAuctionBidsCached aid limit) c =
     snd (get_auction_bids_cached f now db c aid limit)"
| "cache_step (f, now, db, InvalidateAuctionCache aid) c = invalidate_auction_cache c aid"
| "cache_step (f, now, db, InvalidateBidCache aid) c = invalidate_bid_cache c aid"
| "cache_step (f, now, db, UpdateAuctionCache aid a) c = update_auction_cache now c aid a"
| "cache_step (f, now, db, IncrementBidCount aid) c = snd (increment_bid_count f db c aid)"
| "cache_step (f, now, db, GetBidCount aid) c = snd (get_bid_count f db c aid)"
| "cache_step (f, now, db, PreloadAuctionData aid) c = preload_auction_data f now db c aid"
| "cache_step (f, now, db, CleanupExpiredCache) c = cleanup_expired_cache now c"
| "cache_step (f, now, db, CleanupCache) c = cleanup_cache c"

fun cache_run ::
  "cache_manager \<Rightarrow> (faults \<times> time \<times> database \<times> cache_op) list \<Rightarrow> cache_manager" where
  "cache_run c [] = c"
| "cache_run c (e # es) = cache_run (cache_step e c) es"

text \<open>The calls that can store an entry for auction \<open>aid\<close> (the puts, read-through included).\<close>

fun puts_key :: "cache_op \<Rightarrow> nat \<Rightarrow> bool" where
  "puts_key (GetAuctionCached k) aid = (k = aid)"
| "puts_key (GetAuctionBidsCached k limit) aid = (k = aid)"
| "puts_key (UpdateAuctionCache k a) aid = (k = aid)"
| "puts_key (IncrementBidCount k) aid = (k = aid)"
| "puts_key (GetBidCount k) aid = (k = aid)"
| "puts_key (PreloadAuctionData k) aid = (k = aid)"
| "puts_key (InvalidateAuctionCache k) aid = False"
| "puts_key (InvalidateBidCache k) aid = False"
| "puts_key CleanupExpiredCache aid = False"
| "puts_key CleanupCache aid = False"

section \<open>The bot: timers, guard and commands (main.py, timer_manager.py, commands.py)\<close>

text \<open>
  The process-wide state: the store, the cache manager, the table \<^verbatim>\<open>active_timers\<close> of
  \<^verbatim>\<open>TimerManager\<close> (auction id to the armed timer task, which is its delay in seconds), the
  guard tables \<^verbatim>\<open>user_cooldowns\<close> and \<^verbatim>\<open>bid_processing\<close> of the bot, the guilds the bot is
  in, and the background tasks started with \<^verbatim>\<open>asyncio.create_task\<close> and kept in no table.
  \<^verbatim>\<open>TimerManager\<close> is built in \<^verbatim>\<open>setup_hook\<close> after the store, the cache manager and the
  utilities, so its checks for a missing store or missing utilities never fire.
\<close>

datatype task =
    EndAuctionTask nat
  | NotifyAuctionEnd nat
  | NotifyPreviousBidder notification_info
  | UpdateAuctionMessage nat

record bot_state =
  bot_db :: database
  bot_cache :: cache_manager
  active_timers :: "nat \<rightharpoonup> real"
  user_cooldowns :: "nat \<rightharpoonup> time"
  bid_processing :: "nat set"
  bot_guilds :: "nat list"
  spawned :: "task list"

text \<open>The state of a process that has just started on the store \<open>d\<close>, in the guilds \<open>gs\<close>.\<close>

definition start_state :: "database \<Rightarrow> nat list \<Rightarrow> bot_state" where
  "start_state d gs = \<lparr>bot_db = d, bot_cache = empty_cache, active_timers = Map.empty,
     user_cooldowns = Map.empty, bid_processing = {}, bot_guilds = gs, spawned = []\<rparr>"

subsection \<open>Lifecycle scheduler\<close>

definition cancel_timer :: "bot_state \<Rightarrow> nat \<Rightarrow> bot_state" where
  "cancel_timer s aid = s\<lparr>active_timers := (active_timers s)(aid := None)\<rparr>"

text \<open>
  \<^verbatim>\<open>schedule_auction_end\<close>: cancel the timer of this id; when the end time has passed, start
  the closing as a background task; else arm a timer, whose delay is raised to one second
  when less than a minute remains.
\<close>

definition schedule_auction_end :: "time \<Rightarrow> bot_state \<Rightarrow> nat \<Rightarrow> time \<Rightarrow> bot_state" where
  "schedule_auction_end now s aid end_time =
     (let s1 = cancel_timer s aid;
          time_until_end = end_time - now
      in if time_until_end \<le> 0 then s1\<lparr>spawned := spawned s1 @ [EndAuctionTask aid]\<rparr>
         else
           let delay = (if time_until_end < 60 then max time_until_end 1 else time_until_end)
           in s1\<lparr>active_timers := (active_timers s1)(aid \<mapsto> delay)\<rparr>)"

text \<open>
  \<^verbatim>\<open>TimerManager.end_auction\<close>, the closing operation. The snapshot comes from the cache
  (read-through), with a second direct read of the store when that finds nothing; an
  auction that is not active is a success with no write. The winner is the user of the
  first of the cached bids.
\<close>

definition end_auction :: "faults \<Rightarrow> time \<Rightarrow> bot_state \<Rightarrow> nat \<Rightarrow> bool \<times> bot_state" where
  "end_auction f now s aid =
     (let (cached, c1) = get_auction_cached f now (bot_db s) (bot_cache s) aid;
          auction = (case cached of Some a \<Rightarrow> Some a | None \<Rightarrow> get_auction f (bot_db s) aid)
      in case auction of
           None \<Rightarrow> (False, s\<lparr>bot_cache := c1\<rparr>)
         | Some a \<Rightarrow>
             if status a \<noteq> Active then (True, s\<lparr>bot_cache := c1\<rparr>)
             else
               let (bl, c2) = get_auction_bids_cached f now (bot_db s) c1 aid 1;
                   winner = (case bl of [] \<Rightarrow> None | b # _ \<Rightarrow> Some (user_id b));
                   (success, db') = db_end_auction f now (bot_db s) aid winner
               in if \<not> success then (False, s\<lparr>bot_cache := c2\<rparr>)
                  else (True, cancel_timer
                                (s\<lparr>bot_db := db',
                                   bot_cache := invalidate_auction_cache c2 aid,
                                   spawned := spawned s @ [NotifyAuctionEnd aid]\<rparr>) aid))"

text \<open>
  \<^verbatim>\<open>recover_active_auctions\<close>: close what \<^verbatim>\<open>get_expired_auctions\<close> returns; then, guild by
  guild of \<^verbatim>\<open>bot.guilds\<close>, schedule the auctions \<^verbatim>\<open>get_active_auctions\<close> returns whose end is
  still ahead and close the others.
\<close>

definition recover_guild :: "faults \<Rightarrow> time \<Rightarrow> bot_state \<Rightarrow> nat \<Rightarrow> bot_state" where
  "recover_guild f now s g =
     foldl (\<lambda>s' a. if ends_at a > now
                    then schedule_auction_end now s' (auction_id a) (ends_at a)
                    else snd (end_auction f now s' (auction_id a)))
           s (get_active_auctions f (bot_db s) g)"

definition recover_active_auctions :: "faults \<Rightarrow> time \<Rightarrow> bot_state \<Rightarrow> bot_state" where
  "recover_active_auctions f now s =
     (let expired_auctions = get_expired_auctions f now (bot_db s);
          s1 = foldl (\<lambda>s' a. snd (end_auction f now s' (auction_id a))) s expired_auctions
      in foldl (recover_guild f now) s1 (bot_guilds s1))"

text \<open>One round of the periodic task \<^verbatim>\<open>_cleanup_expired_auctions\<close>.\<close>

definition cleanup_expired_auctions :: "faults \<Rightarrow> time \<Rightarrow> bot_state \<Rightarrow> bot_state" where
  "cleanup_expired_auctions f now s =
     foldl (\<lambda>s' a. snd (end_auction f now s' (auction_id a))) s
           (get_expired_auctions f now (bot_db s))"

subsection \<open>Concurrency guard\<close>

definition is_user_on_cooldown :: "time \<Rightarrow> bot_state \<Rightarrow> nat \<Rightarrow> bool" where
  "is_user_on_cooldown now s uid =
     (case user_cooldowns s uid of None \<Rightarrow> False | Some cooldown_end \<Rightarrow> now < cooldown_end)"

definition set_user_cooldown :: "time \<Rightarrow> bot_state \<Rightarrow> nat \<Rightarrow> real \<Rightarrow> bot_state" where
  "set_user_cooldown now s uid seconds =
     s\<lparr>user_cooldowns := (user_cooldowns s)(uid \<mapsto> now + seconds)\<rparr>"

definition is_bid_processing :: "bot_state \<Rightarrow> nat \<Rightarrow> bool" where
  "is_bid_processing s uid = (uid \<in> bid_processing s)"

definition set_bid_processing :: "bot_state \<Rightarrow> nat \<Rightarrow> bool \<Rightarrow> bot_state" where
  "set_bid_processing s uid processing =
     (if processing then s\<lparr>bid_processing := insert uid (bid_processing s)\<rparr>
      else s\<lparr>bid_processing := bid_processing s - {uid}\<rparr>)"

definition get_bid_cooldown :: "bool \<Rightarrow> real" where
  "get_bid_cooldown quick = (if quick then 0.5 else 1.0)"

subsection \<open>The command \<^verbatim>\<open>/pujar\<close>\<close>

text \<open>
  Calls to Discord may raise as well; \<open>io c\<close> holds when the call labelled \<open>c\<close> does.
\<close>

datatype discord_call = SendMessage | Defer | FollowupSend

type_synonym io_faults = "discord_call \<Rightarrow> bool"

definition no_io_faults :: io_faults where
  "no_io_faults = (\<lambda>c. False)"

datatype reply =
    OnCooldown | StillProcessing | AuctionNotFound | AuctionNotActive | OwnAuction
  | AuctionOver | MinimumBidIs real | BidFailed bid_error | BidPlaced real | BidError
  | NoReply

text \<open>
  The body of the inner \<^verbatim>\<open>try\<close> of \<^verbatim>\<open>bid\<close>. The result \<open>None\<close> is a raised exception.
  After an accepted bid the function reaches \<^verbatim>\<open>asyncio.create_task\<close> for the message
  update; \<^verbatim>\<open>asyncio\<close> is bound in this function only by the \<^verbatim>\<open>import\<close> inside the branch
  that notifies the previous bidder, so in the other branch the name is unbound and the
  call raises.
\<close>

definition followup_send :: "io_faults \<Rightarrow> reply \<Rightarrow> bot_state \<Rightarrow> reply option \<times> bot_state" where
  "followup_send io r s = (if io FollowupSend then (None, s) else (Some r, s))"

definition bid_body ::
  "io_faults \<Rightarrow> faults \<Rightarrow> time \<Rightarrow> bot_state \<Rightarrow> nat \<Rightarrow> nat \<Rightarrow> real \<Rightarrow> reply option \<times> bot_state" where
  "bid_body io f now s uid aid cantidad =
     (let (auction, c1) = get_auction_cached f now (bot_db s) (bot_cache s) aid;
          s1 = s\<lparr>bot_cache := c1\<rparr>
      in case auction of
           None \<Rightarrow> followup_send io AuctionNotFound s1
         | Some a \<Rightarrow>
             if status a \<noteq> Active then followup_send io AuctionNotActive s1
             else if uid = creator_id a then followup_send io OwnAuction s1
             else if now \<ge> ends_at a then followup_send io AuctionOver s1
             else
               let min_bid = current_price a + min_increment a in
               if cantidad < min_bid then followup_send io (MinimumBidIs min_bid) s1
               else
                 (case place_bid_optimized f now (bot_db s1) aid uid cantidad False of
                    (Rejected e, db') \<Rightarrow> followup_send io (BidFailed e) (s1\<lparr>bot_db := db'\<rparr>)
                  | (Accepted info, db') \<Rightarrow>
                      let s2 = set_user_cooldown now (s1\<lparr>bot_db := db'\<rparr>) uid
                                 (get_bid_cooldown False);
                          s3 = s2\<lparr>bot_cache := invalidate_auction_cache (bot_cache s2) aid\<rparr>
                      in if (case previous_user_id info of
                               None \<Rightarrow> False
                             | Some p \<Rightarrow> p \<noteq> 0 \<and> p \<noteq> uid)
                         then followup_send io (BidPlaced cantidad)
                                (s3\<lparr>spawned := spawned s3 @
                                      [NotifyPreviousBidder info, UpdateAuctionMessage aid]\<rparr>)
                         else (None, s3)))"

text \<open>
  The handler of the outer \<^verbatim>\<open>try\<close>: it clears the marker and tries to tell the user, with
  \<^verbatim>\<open>send_message\<close> before the interaction was answered and \<^verbatim>\<open>followup.send\<close> after.
\<close>

definition bid_handler :: "io_faults \<Rightarrow> discord_call \<Rightarrow> bot_state \<Rightarrow> nat \<Rightarrow> reply \<times> bot_state" where
  "bid_handler io c s uid = (if io c then NoReply else BidError, set_bid_processing s uid False)"

text \<open>
  \<^verbatim>\<open>bid\<close>: cooldown check, in-flight check, \<^verbatim>\<open>defer\<close>, then the marker is set, the body runs
  and the \<^verbatim>\<open>finally\<close> clears the marker.
\<close>

definition bid ::
  "io_faults \<Rightarrow> faults \<Rightarrow> time \<Rightarrow> bot_state \<Rightarrow> nat \<Rightarrow> nat \<Rightarrow> real \<Rightarrow> reply \<times> bot_state" where
  "bid io f now s uid aid cantidad =
     (if is_user_on_cooldown now s uid then
        (if io SendMessage then bid_handler io SendMessage s uid else (OnCooldown, s))
      else if is_bid_processing s uid then
        (if io SendMessage then bid_handler io SendMessage s uid else (StillProcessing, s))
      else if io Defer then bid_handler io SendMessage s uid
      else
        let s1 = set_bid_processing s uid True;
            (r, s2) = bid_body io f now s1 uid aid cantidad;
            s3 = set_bid_processing s2 uid False
        in case r of
             Some answer \<Rightarrow> (answer, s3)
           | None \<Rightarrow> bid_handler io FollowupSend s3 uid)"

subsection \<open>The command \<^verbatim>\<open>/subasta\<close>\<close>

record create_request =
  req_user :: nat
  req_guild :: nat
  req_channel :: nat
  titulo :: string
  precio_inicial :: real
  incremento_minimo :: real
  material_pago :: string
  duracion :: int
  descripcion :: "string option"
  imagenes :: "(nat \<times> string) list"    \<comment> \<open>size in bytes and URL of each attachment given\<close>

datatype create_reply =
    PriceNotPositive | IncrementNotPositive | TitleTooLong | ImageTooLarge
  | CreateError | AuctionCreated nat | NoCreateReply

text \<open>An answer is sent with \<^verbatim>\<open>followup.send\<close>; when that raises, the user sees nothing.\<close>

definition create_answer :: "io_faults \<Rightarrow> create_reply \<Rightarrow> create_reply" where
  "create_answer io r = (if io FollowupSend then NoCreateReply else r)"

text \<open>The reads of the cache that \<^verbatim>\<open>create_auction_embed\<close> makes while it renders.\<close>

definition create_auction_embed ::
  "faults \<Rightarrow> time \<Rightarrow> database \<Rightarrow> cache_manager \<Rightarrow> nat \<Rightarrow> cache_manager" where
  "create_auction_embed f now db c aid =
     (case get_auction_cached f now db c aid of
        (None, c1) \<Rightarrow> c1
      | (Some a, c1) \<Rightarrow>
          let c2 = snd (get_auction_bids_cached f now db c1 aid 1)
          in snd (get_auction_bids_cached f now db c2 aid 15))"

text \<open>
  \<^verbatim>\<open>create_auction\<close> of \<^verbatim>\<open>AuctionCommands\<close>: the validations, the insert, the preload, the
  rendering and sending of the auction message (whose id \<open>mid\<close> Discord chooses), the
  update of the message id, the invalidation and the scheduling of the end.
\<close>

definition create_auction ::
  "io_faults \<Rightarrow> faults \<Rightarrow> time \<Rightarrow> bot_state \<Rightarrow> create_request \<Rightarrow> nat \<Rightarrow> create_reply \<times> bot_state" where
  "create_auction io f now s req mid =
     (if io Defer then (NoCreateReply, s)
      else if precio_inicial req \<le> 0 then (create_answer io PriceNotPositive, s)
      else if incremento_minimo req \<le> 0 then (create_answer io IncrementNotPositive, s)
      else if length (titulo req) > 100 then (create_answer io TitleTooLong, s)
      else if \<exists>img \<in> set (imagenes req). fst img > 10 * 1024 * 1024
        then (create_answer io ImageTooLarge, s)
      else
        let image_urls = map snd (imagenes req);
            ends = now + real_of_int (duracion req) * 3600;
            auction_data =
              \<lparr>data_guild_id = req_guild req,
               data_channel_id = req_channel req,
               data_creator_id = req_user req,
               data_title = titulo req,
               data_description = (case descripcion req of
                                     None \<Rightarrow> ''Sin descripcion''
                                   | Some d \<Rightarrow> if d = [] then ''Sin descripcion'' else d),
               data_starting_price = precio_inicial req,
               data_min_increment = incremento_minimo req,
               data_payment_material = material_pago req,
               data_image_urls = Some image_urls,
               data_duration_hours = duracion req,
               data_created_at = now,
               data_ends_at = ends,
               data_message_id = None\<rparr>
        in case db_create_auction f now (bot_db s) auction_data of
             None \<Rightarrow> (create_answer io CreateError, s)
           | Some (aid, db1) \<Rightarrow>
               let c1 = preload_auction_data f now db1 (bot_cache s) aid;
                   c2 = create_auction_embed f now db1 c1 aid
               in if io FollowupSend then (NoCreateReply, s\<lparr>bot_db := db1, bot_cache := c2\<rparr>)
                  else
                    let db2 = update_auction_message_id f now db1 aid mid;
                        c3 = invalidate_auction_cache c2 aid
                    in (AuctionCreated aid,
                        schedule_auction_end now (s\<lparr>bot_db := db2, bot_cache := c3\<rparr>) aid ends))"

subsection \<open>Histories of the bot\<close>

text \<open>
  What happens in the process, as events: the two commands, a call of the closing
  operation (by a timer that fires, by the command \<^verbatim>\<open>/finalizar\<close> or by a started task),
  the recovery sweep, a round of the periodic sweep, and the reads and the sweep of the
  cache that rendering and the cleanup task make. The button and modal of \<^verbatim>\<open>views.py\<close>
  place bids like \<^verbatim>\<open>/pujar\<close> does: \<^verbatim>\<open>place_bid_optimized\<close>, then the invalidation.
\<close>

datatype bot_op =
    CreateAuctionCommand create_request nat
  | BidCommand nat nat real
  | EndAuctionCall nat
  | RecoverActiveAuctions
  | CleanupExpiredAuctions
  | ReadAuction nat
  | ReadBids nat nat
  | ReadBidCount nat
  | SweepCache

fun bot_step :: "io_faults \<times> faults \<times> time \<times> bot_op \<Rightarrow> bot_state \<Rightarrow> bot_state" where
  "bot_step (io, f, now, CreateAuctionCommand req mid) s = snd (create_auction io f now s req mid)"
| "bot_step (io, f, now, BidCommand uid aid cantidad) s = snd (bid io f now s uid aid cantidad)"
| "bot_step (io, f, now, EndAuctionCall aid) s = snd (end_auction f now s aid)"
| "bot_step (io, f, now, RecoverActiveAuctions) s = recover_active_auctions f now s"
| "bot_step (io, f, now, CleanupExpiredAuctions) s = cleanup_expired_auctions f now s"
| "bot_step (io, f, now, ReadAuction aid) s =
     s\<lparr>bot_cache := snd (get_auction_cached f now (bot_db s) (bot_cache s) aid)\<rparr>"
| "bot_step (io, f, now, ReadBids aid limit) s =
     s\<lparr>bot_cache := snd (get_auction_bids_cached f now (bot_db s) (bot_cache s) aid limit)\<rparr>"
| "bot_step (io, f, now, ReadBidCount aid) s =
     s\<lparr>bot_cache := snd (get_bid_count f (bot_db s) (bot_cache s) aid)\<rparr>"
| "bot_step (io, f, now, SweepCache) s =
     s\<lparr>bot_cache := cleanup_expired_cache now (bot_cache s)\<rparr>"

fun bot_run :: "bot_state \<Rightarrow> (io_faults \<times> faults \<times> time \<times> bot_op) list \<Rightarrow> bot_state" where
  "bot_run s [] = s"
| "bot_run s (e # es) = bot_run (bot_step e s) es"

section \<open>Histories of the store\<close>

text \<open>
  The four methods of \<^verbatim>\<open>AuctionDatabase\<close> that write, as events; a history is a list of
  events, each with the faults and the instant of its call. The stores that a process
  can reach are the results of histories that start from the empty store.
\<close>

datatype db_op =
    DbCreateAuction auction_data
  | DbPlaceBid nat nat real bool
  | DbEndAuction nat "nat option"
  | DbUpdateMessageId nat nat

fun db_step :: "faults \<times> time \<times> db_op \<Rightarrow> database \<Rightarrow> database" where
  "db_step (f, now, DbCreateAuction d) db =
     (case db_create_auction f now db d of None \<Rightarrow> db | Some (aid, db') \<Rightarrow> db')"
| "db_step (f, now, DbPlaceBid aid uid amt quick) db =
     snd (place_bid_optimized f now db aid uid amt quick)"
| "db_step (f, now, DbEndAuction aid winner) db = snd (db_end_auction f now db aid winner)"
| "db_step (f, now, DbUpdateMessageId aid mid) db = update_auction_message_id f now db aid mid"

fun db_run :: "database \<Rightarrow> (faults \<times> time \<times> db_op) list \<Rightarrow> database" where
  "db_run db [] = db"
| "db_run db (e # es) = db_run (db_step e db) es"

text \<open>
  What the primary key and the foreign key give: ids are unique and at most the counter,
  and every bid belongs to an auction of the table.
\<close>

definition db_wf :: "database \<Rightarrow> bool" where
  "db_wf db \<longleftrightarrow>
     distinct (map auction_id (auctions db)) \<and>
     (\<forall>a \<in> set (auctions db). auction_id a \<le> auction_seq db) \<and>
     (\<forall>b \<in> set (bids db). bid_auction_id b \<in> auction_id ` set (auctions db))"


text \<open>No bid of the table was placed by the creator of its auction.\<close>

definition no_self_bids :: "database \<Rightarrow> bool" where
  "no_self_bids db \<longleftrightarrow>
     (\<forall>b \<in> set (bids db). \<forall>a \<in> set (auctions db).
        auction_id a = bid_auction_id b \<longrightarrow> creator_id a \<noteq> user_id b)"

text \<open>The user of the newest bid of an auction, as the ORDER BY query gives it.\<close>

definition latest_bidder :: "database \<Rightarrow> nat \<Rightarrow> nat option" where
  "latest_bidder db aid =
     (case bids_by_time_desc db aid of [] \<Rightarrow> None | b # _ \<Rightarrow> Some (user_id b))"

text \<open>
  The cache agrees with the store where closing depends on it: a cached snapshot is of an
  auction of the table, one that says ended is of an auction that has ended, and the
  first cached bid of an auction is its newest bid.
\<close>

definition cache_coherent :: "database \<Rightarrow> cache_manager \<Rightarrow> bool" where
  "cache_coherent db c \<longleftrightarrow>
     (\<forall>aid a. auction_cache c aid = Some a \<longrightarrow>
        (\<exists>r. get_auction no_faults db aid = Some r \<and> (status a = Ended \<longrightarrow> status r = Ended))) \<and>
     (\<forall>aid bl. bid_cache c aid = Some bl \<longrightarrow> take 1 bl = take 1 (bids_by_time_desc db aid))"

section \<open>The auction cache with its dictionaries as objects\<close>

text \<open>
  To speak about a caller that mutates the dictionary it was given, the dictionaries are
  objects in a heap (a list; an address is an index, a new object goes to the end) and
  the auction cache maps an id to the address of its entry. \<^verbatim>\<open>dict.copy()\<close> allocates a new
  object with the same content; \<^verbatim>\<open>get_auction\<close> builds a new dictionary from the row.
\<close>

record heap_cache =
  objects :: "auction_row list"
  cache_ref :: "nat \<rightharpoonup> nat"
  cache_ttl :: "nat \<rightharpoonup> time"

definition alloc :: "auction_row list \<Rightarrow> auction_row \<Rightarrow> nat \<times> auction_row list" where
  "alloc h v = (length h, h @ [v])"

definition dict_copy :: "auction_row list \<Rightarrow> nat \<Rightarrow> nat \<times> auction_row list" where
  "dict_copy h r = alloc h (h ! r)"

definition get_auction_cached_ref ::
  "faults \<Rightarrow> time \<Rightarrow> database \<Rightarrow> heap_cache \<Rightarrow> nat \<Rightarrow> nat option \<times> heap_cache" where
  "get_auction_cached_ref f now db hc aid =
     (case (case cache_ref hc aid of
              None \<Rightarrow> None
            | Some r \<Rightarrow> (case cache_ttl hc aid of
                           None \<Rightarrow> None
                         | Some t \<Rightarrow> if now < t then Some r else None)) of
        Some r \<Rightarrow>
          (let (r', h') = dict_copy (objects hc) r in (Some r', hc\<lparr>objects := h'\<rparr>))
      | None \<Rightarrow>
          (case get_auction f db aid of
             Some row \<Rightarrow>
               (let (auction, h1) = alloc (objects hc) row;
                    (entry, h2) = dict_copy h1 auction
                in (Some auction,
                    hc\<lparr>objects := h2,
                       cache_ref := (cache_ref hc)(aid \<mapsto> entry),
                       cache_ttl := (cache_ttl hc)(aid \<mapsto> now + auction_ttl)\<rparr>))
           | None \<Rightarrow> (None, hc)))"

text \<open>A caller overwrites the dictionary at address \<open>r\<close> with any content \<open>v\<close>.\<close>

definition mutate :: "heap_cache \<Rightarrow> nat \<Rightarrow> auction_row \<Rightarrow> heap_cache" where
  "mutate hc r v = hc\<lparr>objects := (objects hc)[r := v]\<rparr>"

text \<open>Every cached address is an object of the heap.\<close>

definition heap_ok :: "heap_cache \<Rightarrow> bool" where
  "heap_ok hc \<longleftrightarrow> (\<forall>aid r. cache_ref hc aid = Some r \<longrightarrow> r < length (objects hc))"

text \<open>The cache of values that a heap cache stands for, inside a cache manager \<open>c\<close>.\<close>

definition cache_of :: "cache_manager \<Rightarrow> heap_cache \<Rightarrow> cache_manager" where
  "cache_of c hc =
     c\<lparr>auction_cache := (\<lambda>aid. map_option (\<lambda>r. objects hc ! r) (cache_ref hc aid)),
       auction_cache_ttl := cache_ttl hc\<rparr>"

section \<open>Example stores\<close>

text \<open>
  An auction of guild 7 created by user 10: starting price 100, minimum increment 10,
  twelve hours long.
\<close>

definition example_auction :: auction_row where
  "example_auction = \<lparr>auction_id = 1, guild_id = 7, channel_id = 70, creator_id = 10,
     title = ''lot'', description = ''Sin descripcion'', starting_price = 100,
     current_price = 100, min_increment = 10, payment_material = ''oro'',
     image_urls = None, duration_hours = 12, created_at = 0, ends_at = 43200,
     status = Active, winner_id = None, message_id = None, bid_count = 0,
     last_updated = 0\<rparr>"

definition example_db :: database where
  "example_db = \<lparr>auctions = [example_auction], bids = [], auction_seq = 1, bid_seq = 0\<rparr>"

definition ended_db :: database where
  "ended_db = \<lparr>auctions = [example_auction\<lparr>status := Ended\<rparr>], bids = [],
     auction_seq = 1, bid_seq = 0\<rparr>"

definition example_data :: auction_data where
  "example_data = \<lparr>data_guild_id = 7, data_channel_id = 70, data_creator_id = 10,
     data_title = ''lot'', data_description = ''Sin descripcion'',
     data_starting_price = 100, data_min_increment = 10, data_payment_material = ''oro'',
     data_image_urls = None, data_duration_hours = 12, data_created_at = 0,
     data_ends_at = 43200, data_message_id = None\<rparr>"

text \<open>The stores after the accepted bids of X (user 20, 110) and Y (user 30, 120).\<close>

definition after_x :: database where
  "after_x = snd (place_bid_optimized no_faults 5 example_db 1 20 110 False)"

definition after_y :: database where
  "after_y = snd (place_bid_optimized no_faults 7 after_x 1 30 120 False)"

text \<open>The cache after one read of the example auction at instant 0.\<close>

definition cached_example :: cache_manager where
  "cached_example = snd (get_auction_cached no_faults 0 example_db empty_cache 1)"

text \<open>A heap with the example auction cached until instant 30.\<close>

definition cached_heap :: heap_cache where
  "cached_heap = \<lparr>objects = [example_auction], cache_ref = [1 \<mapsto> 0], cache_ttl = [1 \<mapsto> 30]\<rparr>"

text \<open>
  The stores of the recovery scenario, looked at at instant 500: auction A (id 1) ended at
  100 and is still active, auction B (id 2) ends at 1000, auction C (id 3) ends at 500.5;
  all three are of guild 7.
\<close>

definition auction_A :: auction_row where
  "auction_A = example_auction\<lparr>auction_id := 1, ends_at := 100\<rparr>"

definition auction_B :: auction_row where
  "auction_B = example_auction\<lparr>auction_id := 2, ends_at := 1000\<rparr>"

definition auction_C :: auction_row where
  "auction_C = example_auction\<lparr>auction_id := 3, ends_at := 500.5\<rparr>"

definition sweep_db :: database where
  "sweep_db = \<lparr>auctions = [auction_A, auction_B], bids = [], auction_seq = 2, bid_seq = 0\<rparr>"

definition future_db :: database where
  "future_db = \<lparr>auctions = [auction_B], bids = [], auction_seq = 2, bid_seq = 0\<rparr>"

definition soon_db :: database where
  "soon_db = \<lparr>auctions = [auction_C], bids = [], auction_seq = 3, bid_seq = 0\<rparr>"

section \<open>Facts about the store\<close>

lemma find_Some_set: "find P xs = Some x \<Longrightarrow> x \<in> set xs \<and> P x"
  by (induction xs) (auto split: if_splits)

lemma find_append_Some: "find P xs = Some x \<Longrightarrow> find P (xs @ ys) = Some x"
  by (induction xs) (auto split: if_splits)

lemma find_map_key:
  assumes "\<And>x. k (g x) = k x"
  shows "find (\<lambda>x. k x = i) (map g xs) = map_option g (find (\<lambda>x. k x = i) xs)"
  by (induction xs) (auto simp: assms)

lemma find_distinct_key:
  "distinct (map k xs) \<Longrightarrow> a \<in> set xs \<Longrightarrow> find (\<lambda>x. k x = k a) xs = Some a"
  by (induction xs) (auto simp: rev_image_eqI)

lemma distinct_key_unique:
  "distinct (map k xs) \<Longrightarrow> a \<in> set xs \<Longrightarrow> b \<in> set xs \<Longrightarrow> k a = k b \<Longrightarrow> a = b"
  by (induction xs) (auto simp: rev_image_eqI)

lemma db_run_snoc: "db_run db (es @ [e]) = db_step e (db_run db es)"
  by (induction es arbitrary: db) auto

text \<open>What an accepted bid was checked against, and what it wrote.\<close>

lemma place_bid_Accepted:
  assumes "place_bid_optimized f now db aid uid amt quick = (Accepted info, db')"
  shows "\<exists>a. find (\<lambda>a. auction_id a = aid \<and> status a = Active) (auctions db) = Some a \<and>
             uid \<noteq> creator_id a \<and> now < ends_at a \<and> current_price a + min_increment a \<le> amt \<and>
             db' = db\<lparr>bids := bids db @ [\<lparr>bid_id = Suc (bid_seq db), bid_auction_id = aid,
                                          user_id = uid, amount = amt, bid_created_at = now,
                                          is_quick_bid = quick\<rparr>],
                      bid_seq := Suc (bid_seq db),
                      auctions := map (\<lambda>r. if auction_id r = aid
                                            then r\<lparr>current_price := amt,
                                                   bid_count := Suc (bid_count r),
                                                   last_updated := now\<rparr>
                                            else r) (auctions db)\<rparr>"
  using assms
  by (auto simp: place_bid_optimized_def Let_def split: option.splits if_splits)

lemma place_bid_Rejected:
  "place_bid_optimized f now db aid uid amt quick = (Rejected e, db') \<Longrightarrow> db' = db"
  by (auto simp: place_bid_optimized_def Let_def split: option.splits if_splits)

lemma place_bid_cases:
  obtains (accepted) info db' where "place_bid_optimized f now db aid uid amt quick = (Accepted info, db')"
  | (rejected) e where "place_bid_optimized f now db aid uid amt quick = (Rejected e, db)"
proof (cases "place_bid_optimized f now db aid uid amt quick")
  case (Pair r db')
  then show ?thesis
    by (cases r) (auto dest: place_bid_Rejected intro: accepted rejected)
qed

lemma db_wf_empty: "db_wf empty_database"
  by (simp add: db_wf_def empty_database_def)

lemma db_wf_rows:
  assumes wf: "db_wf db" and g: "\<And>r. auction_id (g r) = auction_id r"
    and a: "auctions db' = map g (auctions db)" and s: "auction_seq db' = auction_seq db"
    and b: "\<And>b. b \<in> set (bids db') \<Longrightarrow> b \<in> set (bids db) \<or> bid_auction_id b \<in> auction_id ` set (auctions db)"
  shows "db_wf db'"
proof -
  have ids: "map auction_id (auctions db') = map auction_id (auctions db)"
    by (simp add: a g)
  have img: "auction_id ` set (auctions db') = auction_id ` set (auctions db)"
    by (simp add: a image_image g)
  have 1: "distinct (map auction_id (auctions db'))"
    using wf ids by (simp add: db_wf_def)
  have "\<forall>i \<in> auction_id ` set (auctions db'). i \<le> auction_seq db"
    using wf unfolding img db_wf_def by blast
  then have 2: "\<forall>a \<in> set (auctions db'). auction_id a \<le> auction_seq db'"
    unfolding s by blast
  have 3: "\<forall>b \<in> set (bids db'). bid_auction_id b \<in> auction_id ` set (auctions db')"
    using wf b unfolding db_wf_def img by blast
  from 1 2 3 show ?thesis by (simp add: db_wf_def)
qed

lemma db_wf_step: "db_wf db \<Longrightarrow> db_wf (db_step e db)"
proof -
  assume wf: "db_wf db"
  obtain f now op where e: "e = (f, now, op)" by (cases e)
  show ?thesis
  proof (cases op)
    case (DbCreateAuction d)
    with wf e show ?thesis
      by (auto simp: db_wf_def db_create_auction_def Let_def)
  next
    case (DbPlaceBid aid uid amt quick)
    show ?thesis
    proof (cases rule: place_bid_cases[of f now db aid uid amt quick])
      case (accepted info db')
      from place_bid_Accepted[OF accepted] obtain a where
        a: "find (\<lambda>a. auction_id a = aid \<and> status a = Active) (auctions db) = Some a"
        and db': "db' = db\<lparr>bids := bids db @ [\<lparr>bid_id = Suc (bid_seq db), bid_auction_id = aid,
                                          user_id = uid, amount = amt, bid_created_at = now,
                                          is_quick_bid = quick\<rparr>],
                      bid_seq := Suc (bid_seq db),
                      auctions := map (\<lambda>r. if auction_id r = aid
                                            then r\<lparr>current_price := amt,
                                                   bid_count := Suc (bid_count r),
                                                   last_updated := now\<rparr>
                                            else r) (auctions db)\<rparr>"
        by blast
      from find_Some_set[OF a] have "aid \<in> auction_id ` set (auctions db)" by auto
      then have "db_wf db'"
        by (intro db_wf_rows[OF wf, where g = "\<lambda>r. if auction_id r = aid
                                            then r\<lparr>current_price := amt,
                                                   bid_count := Suc (bid_count r),
                                                   last_updated := now\<rparr>
                                            else r"]) (auto simp: db')
      with accepted e DbPlaceBid show ?thesis by simp
    next
      case (rejected err)
      with wf e DbPlaceBid show ?thesis by simp
    qed
  next
    case (DbEndAuction aid winner)
    show ?thesis
    proof (cases "f EndAuction")
      case True
      with wf e DbEndAuction show ?thesis by (simp add: db_end_auction_def)
    next
      case False
      have "db_wf (snd (db_end_auction f now db aid winner))"
        by (intro db_wf_rows[OF wf, where g = "\<lambda>r. if auction_id r = aid
                     then r\<lparr>status := Ended, winner_id := winner, last_updated := now\<rparr> else r"])
           (auto simp: db_end_auction_def False)
      with e DbEndAuction show ?thesis by simp
    qed
  next
    case (DbUpdateMessageId aid mid)
    show ?thesis
    proof (cases "f UpdateMessageId")
      case True
      with wf e DbUpdateMessageId show ?thesis by (simp add: update_auction_message_id_def)
    next
      case False
      have "db_wf (update_auction_message_id f now db aid mid)"
        by (intro db_wf_rows[OF wf, where g = "\<lambda>r. if auction_id r = aid
                     then r\<lparr>message_id := Some mid, last_updated := now\<rparr> else r"])
           (auto simp: update_auction_message_id_def False)
      with e DbUpdateMessageId show ?thesis by simp
    qed
  qed
qed


lemma no_self_bids_empty: "no_self_bids empty_database"
  by (simp add: no_self_bids_def empty_database_def)

lemma no_self_bids_rows:
  assumes inv: "no_self_bids db"
    and g: "\<And>r. auction_id (g r) = auction_id r" "\<And>r. creator_id (g r) = creator_id r"
    and a: "auctions db' = map g (auctions db)"
    and b: "\<And>b. b \<in> set (bids db') \<Longrightarrow> b \<in> set (bids db) \<or>
              (\<forall>r \<in> set (auctions db). auction_id r = bid_auction_id b \<longrightarrow> creator_id r \<noteq> user_id b)"
  shows "no_self_bids db'"
  unfolding no_self_bids_def
proof (intro ballI impI)
  fix b a' assume b': "b \<in> set (bids db')" and a': "a' \<in> set (auctions db')"
    and eq: "auction_id a' = bid_auction_id b"
  from a' a obtain r where r: "r \<in> set (auctions db)" "a' = g r" by auto
  from r eq g have req: "auction_id r = bid_auction_id b" by simp
  from b[OF b'] inv r(1) req have "creator_id r \<noteq> user_id b"
    unfolding no_self_bids_def by blast
  with r g show "creator_id a' \<noteq> user_id b" by simp
qed

lemma no_self_bids_step:
  assumes wf: "db_wf db" and inv: "no_self_bids db"
  shows "no_self_bids (db_step e db)"
proof -
  obtain f now op where e: "e = (f, now, op)" by (cases e)
  show ?thesis
  proof (cases op)
    case (DbCreateAuction d)
    have "\<And>b. b \<in> set (bids db) \<Longrightarrow> bid_auction_id b \<le> auction_seq db"
      using wf unfolding db_wf_def by fastforce
    with inv e DbCreateAuction show ?thesis
      by (fastforce simp: no_self_bids_def db_create_auction_def Let_def)
  next
    case (DbPlaceBid aid uid amt quick)
    show ?thesis
    proof (cases rule: place_bid_cases[of f now db aid uid amt quick])
      case (accepted info db')
      from place_bid_Accepted[OF accepted] obtain a where
        a: "find (\<lambda>a. auction_id a = aid \<and> status a = Active) (auctions db) = Some a"
        and own: "uid \<noteq> creator_id a"
        and db': "db' = db\<lparr>bids := bids db @ [\<lparr>bid_id = Suc (bid_seq db), bid_auction_id = aid,
                                          user_id = uid, amount = amt, bid_created_at = now,
                                          is_quick_bid = quick\<rparr>],
                      bid_seq := Suc (bid_seq db),
                      auctions := map (\<lambda>r. if auction_id r = aid
                                            then r\<lparr>current_price := amt,
                                                   bid_count := Suc (bid_count r),
                                                   last_updated := now\<rparr>
                                            else r) (auctions db)\<rparr>"
        by blast
      from find_Some_set[OF a] have ain: "a \<in> set (auctions db)" "auction_id a = aid" by auto
      have uniq: "\<forall>r \<in> set (auctions db). auction_id r = aid \<longrightarrow> creator_id r \<noteq> uid"
      proof (intro ballI impI)
        fix r assume "r \<in> set (auctions db)" "auction_id r = aid"
        with wf ain have "r = a"
          unfolding db_wf_def by (metis distinct_key_unique)
        with own show "creator_id r \<noteq> uid" by simp
      qed
      have "no_self_bids db'"
        by (rule no_self_bids_rows[OF inv, where g = "\<lambda>r. if auction_id r = aid
                                            then r\<lparr>current_price := amt,
                                                   bid_count := Suc (bid_count r),
                                                   last_updated := now\<rparr>
                                            else r"]) (use uniq in \<open>auto simp: db'\<close>)
      with accepted e DbPlaceBid show ?thesis by simp
    next
      case (rejected err)
      with inv e DbPlaceBid show ?thesis by simp
    qed
  next
    case (DbEndAuction aid winner)
    show ?thesis
    proof (cases "f EndAuction")
      case True
      with inv e DbEndAuction show ?thesis by (simp add: db_end_auction_def)
    next
      case False
      have "no_self_bids (snd (db_end_auction f now db aid winner))"
        by (rule no_self_bids_rows[OF inv, where g = "\<lambda>r. if auction_id r = aid
                     then r\<lparr>status := Ended, winner_id := winner, last_updated := now\<rparr> else r"])
           (auto simp: db_end_auction_def False)
      with e DbEndAuction show ?thesis by simp
    qed
  next
    case (DbUpdateMessageId aid mid)
    show ?thesis
    proof (cases "f UpdateMessageId")
      case True
      with inv e DbUpdateMessageId show ?thesis by (simp add: update_auction_message_id_def)
    next
      case False
      have "no_self_bids (update_auction_message_id f now db aid mid)"
        by (rule no_self_bids_rows[OF inv, where g = "\<lambda>r. if auction_id r = aid
                     then r\<lparr>message_id := Some mid, last_updated := now\<rparr> else r"])
           (auto simp: update_auction_message_id_def False)
      with e DbUpdateMessageId show ?thesis by simp
    qed
  qed
qed

lemma no_self_bids_run:
  "db_wf db \<Longrightarrow> no_self_bids db \<Longrightarrow> no_self_bids (db_run db es)"
  by (induction es arbitrary: db) (auto intro: db_wf_step no_self_bids_step)










section \<open>The bid transaction\<close>

text \<open>
  Claim C1, as amended. Let \<open>a\<close> be the row that the SELECT inside the transaction
  returns for the auction, and let the amount be below \<open>current_price a + min_increment a\<close>.
  Then the request is rejected and the store is unchanged, whoever bids and whenever. The
  rejection is \<open>BelowMinimum\<close> with exactly that sum when the bidder is not the creator,
  the end time is still ahead and the statements of the store do not raise; the checks
  for the creator and for the end time come first.
\<close>

theorem place_bid_below_minimum:
  assumes "find (\<lambda>a. auction_id a = aid \<and> status a = Active) (auctions db) = Some a"
      and "amt < current_price a + min_increment a"
  shows "(\<exists>e. place_bid_optimized f now db aid uid amt quick = (Rejected e, db)) \<and>
         (uid \<noteq> creator_id a \<and> now < ends_at a \<and>
          \<not> f BeginImmediate \<and> \<not> f SelectActive \<and> \<not> f Rollback
           \<longrightarrow> place_bid_optimized f now db aid uid amt quick
                 = (Rejected (BelowMinimum (current_price a + min_increment a)), db))"
  using assms by (auto simp: place_bid_optimized_def Let_def)

theorem place_bid_below_minimum_witness:
  "place_bid_optimized no_faults 5 example_db 1 20 105 False
     = (Rejected (BelowMinimum 110), example_db)"
  using place_bid_below_minimum[of 1 example_db example_auction 105 no_faults 5 20 False]
  by (simp add: example_db_def example_auction_def no_faults_def)

text \<open>
  The claim as stated fails for the creator: the auction is active, the amount 105 is
  below the minimum 110, and the rejection is \<open>SelfBid\<close>.
\<close>

theorem place_bid_below_minimum_counterexample:
  "status example_auction = Active \<and>
   (105::real) < current_price example_auction + min_increment example_auction \<and>
   place_bid_optimized no_faults 5 example_db 1 10 105 False = (Rejected SelfBid, example_db) \<and>
   place_bid_optimized no_faults 5 example_db 1 10 105 False
     \<noteq> (Rejected (BelowMinimum 110), example_db)"
  by (simp add: place_bid_optimized_def example_db_def example_auction_def no_faults_def)

lemma place_bid_owner_rejected:
  assumes "\<forall>a \<in> set (auctions db). auction_id a = aid \<longrightarrow> creator_id a = uid"
  shows "(\<exists>e. place_bid_optimized f now db aid uid amt quick = (Rejected e, db)) \<and>
         ((\<exists>a \<in> set (auctions db). auction_id a = aid \<and> status a = Active) \<and>
           \<not> f BeginImmediate \<and> \<not> f SelectActive \<and> \<not> f Rollback
           \<longrightarrow> place_bid_optimized f now db aid uid amt quick = (Rejected SelfBid, db)) \<and>
         (\<not> (\<exists>a \<in> set (auctions db). auction_id a = aid \<and> status a = Active) \<and>
           \<not> f BeginImmediate \<and> \<not> f SelectActive \<and> \<not> f Rollback
           \<longrightarrow> place_bid_optimized f now db aid uid amt quick = (Rejected NotFoundOrInactive, db))"
  using assms
  by (auto simp: place_bid_optimized_def Let_def find_None_iff split: option.splits
           dest!: find_Some_set)

text \<open>
  Claim C2, as amended. No store that a history reaches from the empty store holds a bid
  placed by the creator of its auction. A request of the creator is always rejected and
  leaves the store unchanged; when the statements of the store do not raise, the
  rejection is \<open>SelfBid\<close> for an active auction and \<open>NotFoundOrInactive\<close> for one that
  has ended, because the SELECT only returns active rows.
\<close>

theorem owner_bid_never_accepted:
  "no_self_bids (db_run empty_database evs) \<and>
   ((\<forall>a \<in> set (auctions db). auction_id a = aid \<longrightarrow> creator_id a = uid) \<longrightarrow>
      (\<exists>e. place_bid_optimized f now db aid uid amt quick = (Rejected e, db)) \<and>
      ((\<exists>a \<in> set (auctions db). auction_id a = aid \<and> status a = Active) \<and>
        \<not> f BeginImmediate \<and> \<not> f SelectActive \<and> \<not> f Rollback
        \<longrightarrow> place_bid_optimized f now db aid uid amt quick = (Rejected SelfBid, db)) \<and>
      (\<not> (\<exists>a \<in> set (auctions db). auction_id a = aid \<and> status a = Active) \<and>
        \<not> f BeginImmediate \<and> \<not> f SelectActive \<and> \<not> f Rollback
        \<longrightarrow> place_bid_optimized f now db aid uid amt quick = (Rejected NotFoundOrInactive, db)))"
  using no_self_bids_run[OF db_wf_empty no_self_bids_empty, of evs]
        place_bid_owner_rejected[of db aid uid f now amt quick]
  by blast

theorem owner_bid_never_accepted_witness:
  "no_self_bids (db_run empty_database
      [(no_faults, 0, DbCreateAuction example_data), (no_faults, 5, DbPlaceBid 1 20 110 False)]) \<and>
   place_bid_optimized no_faults 5 example_db 1 10 130 False = (Rejected SelfBid, example_db)"
  using owner_bid_never_accepted[of
          "[(no_faults, 0, DbCreateAuction example_data), (no_faults, 5, DbPlaceBid 1 20 110 False)]"
          example_db 1 10 no_faults 5 130 False]
  by (simp add: example_db_def example_auction_def no_faults_def)

text \<open>
  The claim as stated fails for an auction that has ended: the creator's request is
  rejected as not found or inactive, not as a self bid.
\<close>

theorem owner_bid_never_accepted_counterexample:
  "creator_id (hd (auctions ended_db)) = 10 \<and>
   place_bid_optimized no_faults 5 ended_db 1 10 130 False
     = (Rejected NotFoundOrInactive, ended_db) \<and>
   place_bid_optimized no_faults 5 ended_db 1 10 130 False \<noteq> (Rejected SelfBid, ended_db)"
  by (simp add: place_bid_optimized_def ended_db_def example_auction_def no_faults_def)


text \<open>
  The scenario of the specification: price 100, increment 10; X (user 20) bids 110 and is
  accepted; Y (user 30) bids 115 and is told the minimum 120; Y bids 120 and is accepted,
  with X and 110 reported as the previous bid; the creator bids 130 and is refused.
\<close>

lemma after_x_eq:
  "after_x = \<lparr>auctions = [example_auction\<lparr>current_price := 110, bid_count := 1, last_updated := 5\<rparr>],
              bids = [\<lparr>bid_id = 1, bid_auction_id = 1, user_id = 20, amount = 110,
                       bid_created_at = 5, is_quick_bid = False\<rparr>],
              auction_seq = 1, bid_seq = 1\<rparr>"
  by (simp add: after_x_def place_bid_optimized_def example_db_def example_auction_def
        no_faults_def bids_by_time_desc_def Let_def)

lemma scenario:
  "(\<exists>info. place_bid_optimized no_faults 5 example_db 1 20 110 False = (Accepted info, after_x)) \<and>
   place_bid_optimized no_faults 6 after_x 1 30 115 False = (Rejected (BelowMinimum 120), after_x) \<and>
   (\<exists>info. place_bid_optimized no_faults 7 after_x 1 30 120 False = (Accepted info, after_y) \<and>
           previous_user_id info = Some 20 \<and> previous_amount info = 110 \<and> new_amount info = 120) \<and>
   place_bid_optimized no_faults 8 after_y 1 10 130 False = (Rejected SelfBid, after_y)"
  unfolding after_y_def
  by (simp add: after_x_eq place_bid_optimized_def example_auction_def example_db_def
        no_faults_def bids_by_time_desc_def Let_def)

section \<open>The cache\<close>

lemma cache_step_absent:
  assumes "\<not> puts_key (snd (snd (snd e))) k"
    and "auction_cache c k = None \<and> bid_cache c k = None \<and> bid_counts c k = None"
  shows "auction_cache (cache_step e c) k = None \<and> bid_cache (cache_step e c) k = None \<and>
         bid_counts (cache_step e c) k = None"
proof -
  obtain f now db op where e: "e = (f, now, db, op)" by (cases e)
  show ?thesis
    using assms unfolding e
    by (cases op)
       (auto simp: get_auction_cached_def get_auction_bids_cached_def invalidate_auction_cache_def
          invalidate_bid_cache_def update_auction_cache_def increment_bid_count_def
          get_bid_count_def preload_auction_data_def cleanup_expired_cache_def cleanup_cache_def
          empty_cache_def sweep_def Let_def split: option.splits)
qed

lemma cache_run_absent:
  assumes "\<forall>e \<in> set es. \<not> puts_key (snd (snd (snd e))) k"
    and "auction_cache c k = None \<and> bid_cache c k = None \<and> bid_counts c k = None"
  shows "auction_cache (cache_run c es) k = None \<and> bid_cache (cache_run c es) k = None \<and>
         bid_counts (cache_run c es) k = None"
  using assms
proof (induction es arbitrary: c)
  case Nil
  then show ?case by simp
next
  case (Cons e es)
  from Cons.prems have "auction_cache (cache_step e c) k = None \<and>
      bid_cache (cache_step e c) k = None \<and> bid_counts (cache_step e c) k = None"
    by (intro cache_step_absent) auto
  with Cons.IH[of "cache_step e c"] Cons.prems(1) show ?case by simp
qed

lemma absent_miss:
  assumes "auction_cache c k = None \<and> bid_cache c k = None \<and> bid_counts c k = None"
  shows "auction_cache_lookup now c k = None \<and> bid_cache_lookup now c k = None \<and>
         fst (get_auction_cached f now db c k) = get_auction f db k \<and>
         fst (get_auction_bids_cached f now db c k limit)
           = take limit (get_auction_bids f db k (max (limit * 3) 20)) \<and>
         fst (get_bid_count f db c k) = length (get_auction_bids f db k 1000)"
  using assms
  by (auto simp: auction_cache_lookup_def bid_cache_lookup_def get_auction_cached_def
        get_auction_bids_cached_def get_bid_count_def Let_def split: option.splits)

lemma invalidate_auction_cache_frame:
  "(let c' = invalidate_auction_cache c aid in
      auction_cache c' aid = None \<and> auction_cache_ttl c' aid = None \<and>
      bid_cache c' aid = None \<and> bid_cache_ttl c' aid = None \<and> bid_counts c' aid = None \<and>
      user_cache c' = user_cache c \<and> user_cache_ttl c' = user_cache_ttl c \<and>
      (\<forall>k. k \<noteq> aid \<longrightarrow>
         auction_cache c' k = auction_cache c k \<and> auction_cache_ttl c' k = auction_cache_ttl c k \<and>
         bid_cache c' k = bid_cache c k \<and> bid_cache_ttl c' k = bid_cache_ttl c k \<and>
         bid_counts c' k = bid_counts c k))"
  by (simp add: invalidate_auction_cache_def)

text \<open>
  Claim C9. Invalidating an auction removes its snapshot, its bids list and its bid count
  (with both expiry entries) in one step and leaves the entries of every other id, and
  the user cache, as they were. After any further calls of the cache manager, none of
  which is a put or a read-through for that id, the three lookups for the id still
  miss at every instant: \<open>get_auction_cached\<close>, \<open>get_auction_bids_cached\<close> and
  \<open>get_bid_count\<close> answer from the store.
\<close>

theorem invalidate_then_miss:
  assumes "\<forall>e \<in> set es. \<not> puts_key (snd (snd (snd e))) aid"
  shows "(let c' = invalidate_auction_cache c aid in
      auction_cache c' aid = None \<and> auction_cache_ttl c' aid = None \<and>
      bid_cache c' aid = None \<and> bid_cache_ttl c' aid = None \<and> bid_counts c' aid = None \<and>
      user_cache c' = user_cache c \<and> user_cache_ttl c' = user_cache_ttl c \<and>
      (\<forall>k. k \<noteq> aid \<longrightarrow>
         auction_cache c' k = auction_cache c k \<and> auction_cache_ttl c' k = auction_cache_ttl c k \<and>
         bid_cache c' k = bid_cache c k \<and> bid_cache_ttl c' k = bid_cache_ttl c k \<and>
         bid_counts c' k = bid_counts c k)) \<and>
    (let c'' = cache_run (invalidate_auction_cache c aid) es in
      auction_cache_lookup now c'' aid = None \<and> bid_cache_lookup now c'' aid = None \<and>
      bid_counts c'' aid = None \<and>
      fst (get_auction_cached f now db c'' aid) = get_auction f db aid \<and>
      fst (get_auction_bids_cached f now db c'' aid limit)
        = take limit (get_auction_bids f db aid (max (limit * 3) 20)) \<and>
      fst (get_bid_count f db c'' aid) = length (get_auction_bids f db aid 1000))"
proof -
  have 0: "auction_cache (invalidate_auction_cache c aid) aid = None \<and>
        bid_cache (invalidate_auction_cache c aid) aid = None \<and>
        bid_counts (invalidate_auction_cache c aid) aid = None"
    by (simp add: invalidate_auction_cache_def)
  have 1: "auction_cache (cache_run (invalidate_auction_cache c aid) es) aid = None \<and>
        bid_cache (cache_run (invalidate_auction_cache c aid) es) aid = None \<and>
        bid_counts (cache_run (invalidate_auction_cache c aid) es) aid = None"
    by (rule cache_run_absent[OF assms 0])
  from absent_miss[OF 1, of now f db limit] 1 invalidate_auction_cache_frame[of c aid]
  show ?thesis by (simp add: Let_def)
qed

theorem invalidate_then_miss_witness:
  "auction_cache_lookup 3 cached_example 1 = Some example_auction \<and>
   auction_cache_lookup 3
     (cache_run (invalidate_auction_cache cached_example 1)
        [(no_faults, 1, example_db, GetAuctionCached 2),
         (no_faults, 2, example_db, CleanupExpiredCache)]) 1 = None \<and>
   fst (get_auction_cached no_faults 3 example_db
     (cache_run (invalidate_auction_cache cached_example 1)
        [(no_faults, 1, example_db, GetAuctionCached 2),
         (no_faults, 2, example_db, CleanupExpiredCache)]) 1) = Some example_auction"
  using invalidate_then_miss[of
          "[(no_faults, 1, example_db, GetAuctionCached 2),
            (no_faults, 2, example_db, CleanupExpiredCache)]" 1 cached_example 3 no_faults
          example_db 1]
  by (simp add: Let_def cached_example_def get_auction_cached_def auction_cache_lookup_def
        empty_cache_def get_auction_def no_faults_def example_db_def example_auction_def
        auction_ttl_def cleanup_expired_cache_def invalidate_auction_cache_def sweep_def)

section \<open>The concurrency guard\<close>

lemma followup_send_frame: "bid_processing (snd (followup_send io r s)) = bid_processing s"
  by (simp add: followup_send_def)

lemma bid_body_processing:
  "bid_processing (snd (bid_body io f now s uid aid cantidad)) = bid_processing s"
  by (auto simp: bid_body_def followup_send_def set_user_cooldown_def Let_def
           split: prod.splits option.splits bid_result.splits)

lemma bid_while_processing:
  assumes "is_bid_processing s uid"
  shows "fst (bid io f now s uid aid cantidad) \<in> {OnCooldown, StillProcessing, BidError, NoReply} \<and>
         bot_db (snd (bid io f now s uid aid cantidad)) = bot_db s \<and>
         (\<not> io SendMessage \<longrightarrow> snd (bid io f now s uid aid cantidad) = s)"
  using assms
  by (auto simp: bid_def bid_handler_def set_bid_processing_def)

text \<open>
  Claim C8. Take an actor with no bid in flight and one call of \<open>bid\<close>, with any
  behaviour of the store and of Discord. Between the setting of the marker and its
  release (before and after the body) the in-flight check holds for the actor, so
  another attempt of the actor made then is turned away without reaching the store.
  When the call is over, whatever its outcome, the marker is cleared and the in-flight
  check of a next attempt passes.
\<close>

theorem bid_releases_guard:
  assumes "\<not> is_bid_processing s uid"
  shows "is_bid_processing (set_bid_processing s uid True) uid \<and>
         is_bid_processing
           (snd (bid_body io f now (set_bid_processing s uid True) uid aid cantidad)) uid \<and>
         fst (bid io2 f2 now2 (set_bid_processing s uid True) uid aid2 cantidad2)
           \<in> {OnCooldown, StillProcessing, BidError, NoReply} \<and>
         bot_db (snd (bid io2 f2 now2 (set_bid_processing s uid True) uid aid2 cantidad2))
           = bot_db (set_bid_processing s uid True) \<and>
         \<not> is_bid_processing (snd (bid io f now s uid aid cantidad)) uid"
proof -
  have 1: "is_bid_processing (set_bid_processing s uid True) uid"
    by (simp add: is_bid_processing_def set_bid_processing_def)
  have 2: "is_bid_processing
             (snd (bid_body io f now (set_bid_processing s uid True) uid aid cantidad)) uid"
    using 1 by (simp add: is_bid_processing_def bid_body_processing)
  have 3: "\<not> is_bid_processing (snd (bid io f now s uid aid cantidad)) uid"
    using assms
    by (auto simp: bid_def bid_handler_def is_bid_processing_def set_bid_processing_def Let_def
             split: prod.splits option.splits)
  from 1 2 3 bid_while_processing[OF 1, of io2 f2 now2 aid2 cantidad2] show ?thesis by blast
qed

theorem bid_releases_guard_witness:
  "\<not> is_bid_processing (start_state example_db [7]) 20 \<and>
   fst (bid no_io_faults no_faults 6 (set_bid_processing (start_state example_db [7]) 20 True)
          20 1 120) = StillProcessing \<and>
   \<not> is_bid_processing (snd (bid no_io_faults no_faults 5 (start_state example_db [7]) 20 1 110)) 20"
  using bid_releases_guard[of "start_state example_db [7]" 20 no_io_faults no_faults 5 1 110
          no_io_faults no_faults 6 1 120]
  by (simp add: is_bid_processing_def start_state_def bid_def is_user_on_cooldown_def
        set_bid_processing_def no_io_faults_def)

text \<open>
  What the first bid on an auction made with \<^verbatim>\<open>/pujar\<close> does: the bid is committed, the
  cooldown is set, and the user is told that the bid failed.
\<close>

lemma first_bid_reply:
  "fst (bid no_io_faults no_faults 5 (start_state example_db [7]) 20 1 110) = BidError \<and>
   bot_db (snd (bid no_io_faults no_faults 5 (start_state example_db [7]) 20 1 110)) = after_x"
  by (simp add: bid_def bid_body_def bid_handler_def start_state_def is_user_on_cooldown_def
        is_bid_processing_def set_bid_processing_def no_io_faults_def get_auction_cached_def
        auction_cache_lookup_def empty_cache_def get_auction_def no_faults_def example_db_def
        example_auction_def place_bid_optimized_def bids_by_time_desc_def Let_def
        set_user_cooldown_def after_x_eq)

section \<open>The cached snapshot is a copy\<close>

lemma cache_of_append:
  assumes "heap_ok hc"
  shows "(\<lambda>k. map_option (\<lambda>r. (objects hc @ xs) ! r) (cache_ref hc k)) =
         (\<lambda>k. map_option (\<lambda>r. objects hc ! r) (cache_ref hc k))"
proof
  fix k
  show "map_option (\<lambda>r. (objects hc @ xs) ! r) (cache_ref hc k) =
        map_option (\<lambda>r. objects hc ! r) (cache_ref hc k)"
    using assms by (cases "cache_ref hc k") (auto simp: heap_ok_def nth_append)
qed

text \<open>
  The function on objects computes what \<open>get_auction_cached\<close> computes on values: the
  content of the returned object is the returned value, and the cache of the new heap
  is the new cache.
\<close>

lemma get_auction_cached_ref_refines:
  assumes ok: "heap_ok hc" and get: "get_auction_cached_ref f now db hc aid = (ro, hc')"
  shows "get_auction_cached f now db (cache_of c hc) aid
           = (map_option (\<lambda>r. objects hc' ! r) ro, cache_of c hc') \<and> heap_ok hc'"
proof (cases "auction_cache_lookup now (cache_of c hc) aid")
  case None
  then have miss: "(case cache_ref hc aid of None \<Rightarrow> None
            | Some r \<Rightarrow> (case cache_ttl hc aid of None \<Rightarrow> None
                         | Some t \<Rightarrow> if now < t then Some r else None)) = None"
    by (auto simp: auction_cache_lookup_def cache_of_def split: option.splits if_splits)
  show ?thesis
  proof (cases "get_auction f db aid")
    case gNone: None
    with None miss get ok show ?thesis
      by (simp add: get_auction_cached_def get_auction_cached_ref_def)
  next
    case (Some row)
    from get miss Some have ro: "ro = Some (length (objects hc))"
      and hc': "hc' = hc\<lparr>objects := objects hc @ [row, row],
                       cache_ref := (cache_ref hc)(aid \<mapsto> Suc (length (objects hc))),
                       cache_ttl := (cache_ttl hc)(aid \<mapsto> now + auction_ttl)\<rparr>"
      by (auto simp: get_auction_cached_ref_def alloc_def dict_copy_def nth_append)
    have ok': "heap_ok hc'"
      using ok by (auto simp: hc' heap_ok_def less_Suc_eq)
    have "(\<lambda>k. map_option (\<lambda>r. objects hc' ! r) (cache_ref hc' k)) =
          (\<lambda>k. map_option (\<lambda>r. objects hc ! r) (cache_ref hc k))(aid \<mapsto> row)"
    proof
      fix k
      show "map_option (\<lambda>r. objects hc' ! r) (cache_ref hc' k) =
            ((\<lambda>k. map_option (\<lambda>r. objects hc ! r) (cache_ref hc k))(aid \<mapsto> row)) k"
        using ok by (cases "cache_ref hc k") (auto simp: hc' heap_ok_def nth_append)
    qed
    then have "cache_of c hc' = (cache_of c hc)\<lparr>auction_cache := (auction_cache (cache_of c hc))(aid \<mapsto> row),
                 auction_cache_ttl := (auction_cache_ttl (cache_of c hc))(aid \<mapsto> now + auction_ttl)\<rparr>"
      by (simp add: cache_of_def hc')
    with None Some ro ok' show ?thesis
      by (simp add: get_auction_cached_def hc' nth_append)
  qed
next
  case (Some a)
  then obtain e t where e: "cache_ref hc aid = Some e" "cache_ttl hc aid = Some t" "now < t"
      "a = objects hc ! e"
    by (auto simp: auction_cache_lookup_def cache_of_def split: option.splits if_splits)
  with get have ro: "ro = Some (length (objects hc))"
    and hc': "hc' = hc\<lparr>objects := objects hc @ [objects hc ! e]\<rparr>"
    by (auto simp: get_auction_cached_ref_def alloc_def dict_copy_def)
  have ok': "heap_ok hc'"
    using ok by (auto simp: hc' heap_ok_def less_Suc_eq)
  have "cache_of c hc' = cache_of c hc"
    using cache_of_append[OF ok, of "[objects hc ! e]"] by (simp add: cache_of_def hc')
  with Some e ro ok' show ?thesis
    by (simp add: get_auction_cached_def hc')
qed

text \<open>
  Claim C10. Let a read of the auction return a dictionary \<open>r\<close>, and let the entry be
  read again before it expires. The dictionary returned is not the cached object but
  has its content; whatever the caller writes into \<open>r\<close>, the cached object keeps its
  content, and the later read returns a dictionary, different from \<open>r\<close>, with the
  original field values.
\<close>

theorem cached_read_is_a_copy:
  assumes ok: "heap_ok hc"
    and get: "get_auction_cached_ref f now db hc aid = (Some r, hc1)"
    and live: "cache_ttl hc1 aid = Some t" "now2 < t"
  shows "\<exists>e. cache_ref hc1 aid = Some e \<and> e \<noteq> r \<and>
             objects hc1 ! r = objects hc1 ! e \<and>
             cache_ref (mutate hc1 r v) aid = Some e \<and>
             objects (mutate hc1 r v) ! e = objects hc1 ! e \<and>
             (\<exists>r2 hc2. get_auction_cached_ref f2 now2 db2 (mutate hc1 r v) aid = (Some r2, hc2) \<and>
                       r2 \<noteq> r \<and> objects hc2 ! r2 = objects hc1 ! e)"
proof -
  have "\<exists>e. cache_ref hc1 aid = Some e \<and> e < length (objects hc1) \<and> r < length (objects hc1) \<and>
            e \<noteq> r \<and> objects hc1 ! r = objects hc1 ! e"
  proof (cases "(case cache_ref hc aid of None \<Rightarrow> None
            | Some r \<Rightarrow> (case cache_ttl hc aid of None \<Rightarrow> None
                         | Some t \<Rightarrow> if now < t then Some r else None))")
    case None
    with get obtain row where "get_auction f db aid = Some row"
      by (cases "get_auction f db aid") (auto simp: get_auction_cached_ref_def)
    with get None show ?thesis
      by (auto simp: get_auction_cached_ref_def alloc_def dict_copy_def nth_append)
  next
    case (Some e)
    then have e: "cache_ref hc aid = Some e"
      by (auto split: option.splits if_splits)
    with ok have "e < length (objects hc)" by (simp add: heap_ok_def)
    with get Some e show ?thesis
      by (auto simp: get_auction_cached_ref_def alloc_def dict_copy_def nth_append)
  qed
  then obtain e where e: "cache_ref hc1 aid = Some e" "e < length (objects hc1)"
      "r < length (objects hc1)" "e \<noteq> r" "objects hc1 ! r = objects hc1 ! e"
    by blast
  have "get_auction_cached_ref f2 now2 db2 (mutate hc1 r v) aid =
          (Some (length (objects hc1)),
           (mutate hc1 r v)\<lparr>objects := (objects hc1)[r := v] @ [objects hc1 ! e]\<rparr>)"
    using e live by (simp add: get_auction_cached_ref_def mutate_def alloc_def dict_copy_def)
  with e show ?thesis
    by (auto simp: mutate_def nth_append)
qed


theorem cached_read_is_a_copy_witness:
  "heap_ok cached_heap \<and>
   get_auction_cached_ref no_faults 5 example_db cached_heap 1
     = (Some 1, cached_heap\<lparr>objects := [example_auction, example_auction]\<rparr>) \<and>
   (\<exists>r2 hc2. get_auction_cached_ref no_faults 10 example_db
        (mutate (cached_heap\<lparr>objects := [example_auction, example_auction]\<rparr>) 1
           (example_auction\<lparr>current_price := 999\<rparr>)) 1 = (Some r2, hc2) \<and>
      r2 \<noteq> 1 \<and> objects hc2 ! r2 = example_auction)"
  using cached_read_is_a_copy[of cached_heap no_faults 5 example_db 1 1
          "cached_heap\<lparr>objects := [example_auction, example_auction]\<rparr>" 30 10
          "example_auction\<lparr>current_price := 999\<rparr>" no_faults example_db]
  by (simp add: heap_ok_def cached_heap_def get_auction_cached_ref_def dict_copy_def alloc_def
        mutate_def)

section \<open>Closing an auction\<close>

lemma get_auction_cached_cases:
  obtains (hit) a where "auction_cache c aid = Some a"
      "get_auction_cached f now db c aid = (Some a, c)"
  | (fill) a where "auction_cache_lookup now c aid = None" "get_auction f db aid = Some a"
      "get_auction_cached f now db c aid =
         (Some a, c\<lparr>auction_cache := (auction_cache c)(aid \<mapsto> a),
                    auction_cache_ttl := (auction_cache_ttl c)(aid \<mapsto> now + auction_ttl)\<rparr>)"
  | (absent) "auction_cache_lookup now c aid = None" "get_auction f db aid = None"
      "get_auction_cached f now db c aid = (None, c)"
proof (cases "auction_cache_lookup now c aid")
  case None
  then show ?thesis
    by (cases "get_auction f db aid") (auto simp: get_auction_cached_def intro: fill absent)
next
  case (Some a)
  then have "auction_cache c aid = Some a"
    by (auto simp: auction_cache_lookup_def split: option.splits if_splits)
  with Some show ?thesis
    by (auto simp: get_auction_cached_def intro: hit)
qed

lemma get_auction_bids_cached_cases:
  obtains (hit) bl where "bid_cache c aid = Some bl"
      "get_auction_bids_cached f now db c aid limit = (take limit bl, c)"
  | (fill) "bid_cache_lookup now c aid = None"
      "get_auction_bids f db aid (max (limit * 3) 20) \<noteq> []"
      "get_auction_bids_cached f now db c aid limit =
         (take limit (get_auction_bids f db aid (max (limit * 3) 20)),
          c\<lparr>bid_cache := (bid_cache c)(aid \<mapsto> get_auction_bids f db aid (max (limit * 3) 20)),
            bid_cache_ttl := (bid_cache_ttl c)(aid \<mapsto> now + bid_ttl)\<rparr>)"
  | (none) "bid_cache_lookup now c aid = None"
      "get_auction_bids f db aid (max (limit * 3) 20) = []"
      "get_auction_bids_cached f now db c aid limit = ([], c)"
proof (cases "bid_cache_lookup now c aid")
  case None
  then show ?thesis
    by (cases "get_auction_bids f db aid (max (limit * 3) 20) = []")
       (auto simp: get_auction_bids_cached_def Let_def intro: fill none)
next
  case (Some bl)
  then have "bid_cache c aid = Some bl"
    by (auto simp: bid_cache_lookup_def split: option.splits if_splits)
  with Some show ?thesis
    by (auto simp: get_auction_bids_cached_def intro: hit)
qed

text \<open>The reads of one auction only touch the entries of that auction.\<close>

lemma get_auction_cached_invalidate:
  "invalidate_auction_cache (snd (get_auction_cached f now db c aid)) aid
     = invalidate_auction_cache c aid"
  by (cases rule: get_auction_cached_cases[of c aid f now db])
     (simp_all add: invalidate_auction_cache_def)

lemma get_auction_bids_cached_invalidate:
  "invalidate_auction_cache (snd (get_auction_bids_cached f now db c aid limit)) aid
     = invalidate_auction_cache c aid"
  by (cases rule: get_auction_bids_cached_cases[of c aid f now db limit])
     (simp_all add: invalidate_auction_cache_def)

lemma get_auction_cached_bid_cache:
  "bid_cache (snd (get_auction_cached f now db c aid)) = bid_cache c"
  by (cases rule: get_auction_cached_cases[of c aid f now db]) simp_all

text \<open>With a coherent cache the first bid that closing sees is the newest bid of the store.\<close>

lemma coherent_first_bid:
  assumes coh: "cache_coherent db c" and nf: "\<not> f GetBids"
  shows "fst (get_auction_bids_cached f now db (snd (get_auction_cached f now db c aid)) aid 1)
           = take 1 (bids_by_time_desc db aid)"
proof -
  let ?c1 = "snd (get_auction_cached f now db c aid)"
  have bc: "bid_cache ?c1 = bid_cache c" by (rule get_auction_cached_bid_cache)
  show ?thesis
  proof (cases rule: get_auction_bids_cached_cases[of ?c1 aid f now db 1])
    case (hit bl)
    with bc coh have "take 1 bl = take 1 (bids_by_time_desc db aid)"
      by (simp add: cache_coherent_def)
    with hit show ?thesis by simp
  next
    case fill
    with nf show ?thesis by (simp add: get_auction_bids_def)
  next
    case none
    with nf show ?thesis by (simp add: get_auction_bids_def)
  qed
qed

lemma latest_bidder_take:
  "(case take (Suc 0) (bids_by_time_desc db aid) of [] \<Rightarrow> None | b # _ \<Rightarrow> Some (user_id b))
     = latest_bidder db aid"
  by (cases "bids_by_time_desc db aid") (simp_all add: latest_bidder_def)

text \<open>
  Closing an auction that the store has as active, with a coherent cache and a store
  that answers: the full path is taken.
\<close>

lemma end_auction_active:
  assumes coh: "cache_coherent (bot_db s) (bot_cache s)"
    and row: "get_auction no_faults (bot_db s) aid = Some a" and act: "status a = Active"
    and nf: "\<not> f GetAuction" "\<not> f GetBids" "\<not> f EndAuction"
  shows "end_auction f now s aid =
           (True, s\<lparr>bot_db := snd (db_end_auction f now (bot_db s) aid
                                     (latest_bidder (bot_db s) aid)),
                    bot_cache := invalidate_auction_cache (bot_cache s) aid,
                    active_timers := (active_timers s)(aid := None),
                    spawned := spawned s @ [NotifyAuctionEnd aid]\<rparr>)"
proof -
  let ?db = "bot_db s" and ?c = "bot_cache s"
  from row nf have frow: "get_auction f ?db aid = Some a"
    by (simp add: get_auction_def no_faults_def)
  obtain a1 c1 where g1: "get_auction_cached f now ?db ?c aid = (Some a1, c1)"
    and a1: "status a1 = Active"
  proof (cases rule: get_auction_cached_cases[of ?c aid f now ?db])
    case (hit a1)
    from coh hit(1) obtain r where "get_auction no_faults ?db aid = Some r"
        "status a1 = Ended \<longrightarrow> status r = Ended"
      unfolding cache_coherent_def by blast
    with row act have "status a1 \<noteq> Ended" by auto
    then have "status a1 = Active" by (cases "status a1") auto
    with hit that show ?thesis by blast
  next
    case (fill a1)
    with frow act that show ?thesis by simp
  next
    case absent
    with frow show ?thesis by simp
  qed
  have c1: "c1 = snd (get_auction_cached f now ?db ?c aid)" using g1 by simp
  obtain bl c2 where g2: "get_auction_bids_cached f now ?db c1 aid 1 = (bl, c2)"
    by (cases "get_auction_bids_cached f now ?db c1 aid 1")
  have bl: "bl = take 1 (bids_by_time_desc ?db aid)"
    using coherent_first_bid[where f = f and now = now and aid = aid, OF coh nf(2)] g2 c1
    by simp
  have inv: "invalidate_auction_cache c2 aid = invalidate_auction_cache ?c aid"
    using get_auction_bids_cached_invalidate[of f now ?db c1 aid 1]
          get_auction_cached_invalidate[of f now ?db ?c aid] g2 c1 by simp
  show ?thesis
    using g1 a1 g2 nf(3) inv
    by (simp add: end_auction_def bl latest_bidder_take db_end_auction_def cancel_timer_def)
qed

lemma latest_bidder_spec:
  "(latest_bidder db aid = None \<longleftrightarrow> (\<forall>b \<in> set (bids db). bid_auction_id b \<noteq> aid)) \<and>
   (\<forall>w. latest_bidder db aid = Some w \<longrightarrow>
      (\<exists>b \<in> set (bids db). bid_auction_id b = aid \<and> user_id b = w \<and>
         (\<forall>b' \<in> set (bids db). bid_auction_id b' = aid \<longrightarrow> bid_created_at b' \<le> bid_created_at b)))"
proof (cases "bids_by_time_desc db aid")
  case Nil
  then have "set (bids_by_time_desc db aid) = {}" by simp
  then have "\<forall>b \<in> set (bids db). bid_auction_id b \<noteq> aid"
    by (auto simp: bids_by_time_desc_def)
  with Nil show ?thesis by (simp add: latest_bidder_def)
next
  case (Cons b rest)
  have set_eq: "set (bids_by_time_desc db aid) = {x \<in> set (bids db). bid_auction_id x = aid}"
    by (auto simp: bids_by_time_desc_def)
  have "sorted (map (\<lambda>b. - bid_created_at b) (bids_by_time_desc db aid))"
    unfolding bids_by_time_desc_def by (rule sorted_sort_key)
  with Cons have "\<forall>x \<in> set rest. bid_created_at x \<le> bid_created_at b" by simp
  then have top: "\<forall>x \<in> set (bids_by_time_desc db aid). bid_created_at x \<le> bid_created_at b"
    using Cons by simp
  from Cons have "b \<in> set (bids_by_time_desc db aid)" by simp
  with set_eq have b: "b \<in> set (bids db)" "bid_auction_id b = aid" by auto
  from top set_eq have "\<forall>b' \<in> set (bids db). bid_auction_id b' = aid \<longrightarrow>
      bid_created_at b' \<le> bid_created_at b" by blast
  with b Cons show ?thesis by (auto simp: latest_bidder_def)
qed

lemma get_auction_after_end:
  assumes "get_auction no_faults db aid = Some r" and "\<not> f EndAuction"
  shows "get_auction no_faults (snd (db_end_auction f now db aid w)) aid
           = Some (r\<lparr>status := Ended, winner_id := w, last_updated := now\<rparr>)"
proof -
  let ?g = "\<lambda>r. if auction_id r = aid
                 then r\<lparr>status := Ended, winner_id := w, last_updated := now\<rparr> else r"
  have "find (\<lambda>x. auction_id x = aid) (map ?g (auctions db)) =
          map_option ?g (find (\<lambda>x. auction_id x = aid) (auctions db))"
    by (rule find_map_key) simp
  moreover from assms(1) have "auction_id r = aid"
    by (auto simp: get_auction_def no_faults_def dest: find_Some_set)
  ultimately show ?thesis
    using assms by (simp add: get_auction_def no_faults_def db_end_auction_def)
qed

text \<open>
  Claim C6. Let the store hold the auction as active, the cache be coherent with the
  store and the store answer. Then closing succeeds; one update of the store sets the
  status to ended together with the winner; the winner is none exactly when the auction
  has no bid, and else the user of a bid of the auction whose timestamp no other bid of
  the auction exceeds; bids are untouched; afterwards the five cache entries of the
  auction and its timer handle are gone, and the notification task has been started.
\<close>

theorem close_sets_winner:
  assumes coh: "cache_coherent (bot_db s) (bot_cache s)"
    and row: "get_auction no_faults (bot_db s) aid = Some a" and act: "status a = Active"
    and nf: "\<not> f GetAuction" "\<not> f GetBids" "\<not> f EndAuction"
  shows "\<exists>s'. end_auction f now s aid = (True, s') \<and>
    auctions (bot_db s') =
      map (\<lambda>r. if auction_id r = aid
                then r\<lparr>status := Ended, winner_id := latest_bidder (bot_db s) aid,
                       last_updated := now\<rparr>
                else r) (auctions (bot_db s)) \<and>
    bids (bot_db s') = bids (bot_db s) \<and>
    get_auction no_faults (bot_db s') aid
      = Some (a\<lparr>status := Ended, winner_id := latest_bidder (bot_db s) aid, last_updated := now\<rparr>) \<and>
    (latest_bidder (bot_db s) aid = None \<longleftrightarrow>
       (\<forall>b \<in> set (bids (bot_db s)). bid_auction_id b \<noteq> aid)) \<and>
    (\<forall>w. latest_bidder (bot_db s) aid = Some w \<longrightarrow>
       (\<exists>b \<in> set (bids (bot_db s)). bid_auction_id b = aid \<and> user_id b = w \<and>
          (\<forall>b' \<in> set (bids (bot_db s)). bid_auction_id b' = aid \<longrightarrow>
             bid_created_at b' \<le> bid_created_at b))) \<and>
    auction_cache (bot_cache s') aid = None \<and> auction_cache_ttl (bot_cache s') aid = None \<and>
    bid_cache (bot_cache s') aid = None \<and> bid_cache_ttl (bot_cache s') aid = None \<and>
    bid_counts (bot_cache s') aid = None \<and>
    active_timers s' aid = None \<and>
    spawned s' = spawned s @ [NotifyAuctionEnd aid]"
proof -
  let ?s' = "s\<lparr>bot_db := snd (db_end_auction f now (bot_db s) aid (latest_bidder (bot_db s) aid)),
               bot_cache := invalidate_auction_cache (bot_cache s) aid,
               active_timers := (active_timers s)(aid := None),
               spawned := spawned s @ [NotifyAuctionEnd aid]\<rparr>"
  have 1: "end_auction f now s aid = (True, ?s')"
    by (rule end_auction_active[OF coh row act nf])
  have 2: "get_auction no_faults (bot_db ?s') aid
      = Some (a\<lparr>status := Ended, winner_id := latest_bidder (bot_db s) aid, last_updated := now\<rparr>)"
    using get_auction_after_end[where f = f, OF row nf(3)] by simp
  have 3: "auctions (bot_db ?s') =
      map (\<lambda>r. if auction_id r = aid
                then r\<lparr>status := Ended, winner_id := latest_bidder (bot_db s) aid,
                       last_updated := now\<rparr>
                else r) (auctions (bot_db s))"
    and 4: "bids (bot_db ?s') = bids (bot_db s)"
    using nf(3) by (simp_all add: db_end_auction_def)
  have 5: "auction_cache (bot_cache ?s') aid = None"
    and 6: "auction_cache_ttl (bot_cache ?s') aid = None"
    and 7: "bid_cache (bot_cache ?s') aid = None"
    and 8: "bid_cache_ttl (bot_cache ?s') aid = None"
    and 9: "bid_counts (bot_cache ?s') aid = None"
    and 10: "active_timers ?s' aid = None"
    and 11: "spawned ?s' = spawned s @ [NotifyAuctionEnd aid]"
    by (simp_all add: invalidate_auction_cache_def)
  note 12 = latest_bidder_spec[of "bot_db s" aid, THEN conjunct1]
  note 13 = latest_bidder_spec[of "bot_db s" aid, THEN conjunct2]
  show ?thesis
    by (rule exI[of _ ?s'], intro conjI) (fact 1 2 3 4 5 6 7 8 9 10 11 12 13)+
qed

lemma after_y_eq:
  "after_y = \<lparr>auctions = [example_auction\<lparr>current_price := 120, bid_count := 2, last_updated := 7\<rparr>],
              bids = [\<lparr>bid_id = 1, bid_auction_id = 1, user_id = 20, amount = 110,
                       bid_created_at = 5, is_quick_bid = False\<rparr>,
                      \<lparr>bid_id = 2, bid_auction_id = 1, user_id = 30, amount = 120,
                       bid_created_at = 7, is_quick_bid = False\<rparr>],
              auction_seq = 1, bid_seq = 2\<rparr>"
  by (simp add: after_y_def after_x_eq place_bid_optimized_def example_auction_def
        no_faults_def bids_by_time_desc_def Let_def)

lemma latest_bidder_after_y: "latest_bidder after_y 1 = Some 30"
  by (simp add: latest_bidder_def bids_by_time_desc_def after_y_eq)

lemma example_close:
  "\<exists>s'. end_auction no_faults 50000 (start_state after_y [7]) 1 = (True, s')"
proof -
  let ?s = "start_state after_y [7]"
  let ?a = "example_auction\<lparr>current_price := 120, bid_count := 2, last_updated := 7\<rparr>"
  have coh: "cache_coherent (bot_db ?s) (bot_cache ?s)"
    by (simp add: start_state_def cache_coherent_def empty_cache_def)
  have row: "get_auction no_faults (bot_db ?s) 1 = Some ?a"
    by (simp add: start_state_def after_y_eq get_auction_def no_faults_def example_auction_def)
  have act: "status ?a = Active"
    by (simp add: example_auction_def)
  have nf: "\<not> no_faults GetAuction" "\<not> no_faults GetBids" "\<not> no_faults EndAuction"
    by (simp_all add: no_faults_def)
  show ?thesis
    by (rule exI) (rule end_auction_active[where f = no_faults and now = 50000,
          OF coh row act nf])
qed

theorem close_sets_winner_witness:
  "\<exists>s'. end_auction no_faults 50000 (start_state after_y [7]) 1 = (True, s') \<and>
        map status (auctions (bot_db s')) = [Ended] \<and>
        map winner_id (auctions (bot_db s')) = [Some 30] \<and>
        active_timers s' 1 = None"
proof -
  let ?s = "start_state after_y [7]"
  let ?a = "example_auction\<lparr>current_price := 120, bid_count := 2, last_updated := 7\<rparr>"
  have coh: "cache_coherent (bot_db ?s) (bot_cache ?s)"
    by (simp add: start_state_def cache_coherent_def empty_cache_def)
  have row: "get_auction no_faults (bot_db ?s) 1 = Some ?a"
    by (simp add: start_state_def after_y_eq get_auction_def no_faults_def example_auction_def)
  have act: "status ?a = Active"
    by (simp add: example_auction_def)
  have nf: "\<not> no_faults GetAuction" "\<not> no_faults GetBids" "\<not> no_faults EndAuction"
    by (simp_all add: no_faults_def)
  from close_sets_winner[where f = no_faults and now = 50000, OF coh row act nf]
  obtain s' where s': "end_auction no_faults 50000 ?s 1 = (True, s')"
    "auctions (bot_db s') =
      map (\<lambda>r. if auction_id r = 1
                then r\<lparr>status := Ended, winner_id := latest_bidder (bot_db ?s) 1,
                       last_updated := 50000\<rparr>
                else r) (auctions (bot_db ?s))"
    "active_timers s' 1 = None"
    by (elim exE conjE)
  have lb: "latest_bidder (bot_db ?s) 1 = Some 30"
    using latest_bidder_after_y by (simp add: start_state_def)
  have rows: "auctions (bot_db ?s) = [?a]"
    by (simp add: start_state_def after_y_eq)
  from s'(2) have "map status (auctions (bot_db s')) = [Ended] \<and>
      map winner_id (auctions (bot_db s')) = [Some 30]"
    unfolding lb rows by (simp add: example_auction_def)
  with s'(1,3) show ?thesis by (intro exI[of _ s']) simp
qed

text \<open>
  Closing when the auction has ended, in the cache if it is there and in the store: a
  success that writes nothing.
\<close>

lemma end_auction_ended:
  assumes c: "\<And>a. auction_cache (bot_cache s) aid = Some a \<Longrightarrow> status a = Ended"
    and r: "get_auction no_faults (bot_db s) aid = Some r" "status r = Ended"
    and nf: "\<not> f GetAuction"
  shows "\<exists>s'. end_auction f now s aid = (True, s') \<and> bot_db s' = bot_db s \<and>
              active_timers s' = active_timers s \<and> spawned s' = spawned s"
proof (cases rule: get_auction_cached_cases[of "bot_cache s" aid f now "bot_db s"])
  case (hit a)
  with c[OF hit(1)] show ?thesis
    by (simp add: end_auction_def)
next
  case (fill a)
  with r nf have "status a = Ended"
    by (simp add: get_auction_def no_faults_def)
  with fill show ?thesis
    by (simp add: end_auction_def)
next
  case absent
  with r nf show ?thesis
    by (simp add: get_auction_def no_faults_def)
qed

lemma status_not_Active: "status a \<noteq> Active \<Longrightarrow> status a = Ended"
  by (cases "status a") auto

text \<open>
  Claim C5. After a close that returned success, from a state whose cache is coherent
  with the store, a second close of the same auction (at any later or earlier instant,
  with a store that answers the read) returns success and writes nothing: the store,
  the timer table and the started tasks are as the first close left them.
\<close>

theorem close_twice:
  assumes coh: "cache_coherent (bot_db s) (bot_cache s)"
    and first: "end_auction f now s aid = (True, s1)"
    and nf: "\<not> f' GetAuction"
  shows "\<exists>s2. end_auction f' now' s1 aid = (True, s2) \<and> bot_db s2 = bot_db s1 \<and>
              active_timers s2 = active_timers s1 \<and> spawned s2 = spawned s1"
proof -
  let ?db = "bot_db s" and ?c = "bot_cache s"
  obtain cached c1 where g1: "get_auction_cached f now ?db ?c aid = (cached, c1)"
    by (cases "get_auction_cached f now ?db ?c aid")
  have "\<exists>a r. cached = Some a \<and> auction_cache c1 aid = Some a \<and>
          get_auction no_faults ?db aid = Some r \<and> (status a = Ended \<longrightarrow> status r = Ended)"
  proof (cases rule: get_auction_cached_cases[of ?c aid f now ?db])
    case (hit a)
    from coh hit(1) obtain r where "get_auction no_faults ?db aid = Some r"
        "status a = Ended \<longrightarrow> status r = Ended"
      unfolding cache_coherent_def by blast
    with hit g1 show ?thesis by auto
  next
    case (fill a)
    then have "get_auction no_faults ?db aid = Some a"
      by (auto simp: get_auction_def no_faults_def split: if_splits)
    with fill g1 show ?thesis by auto
  next
    case absent
    with g1 first show ?thesis
      by (simp add: end_auction_def)
  qed
  then obtain a r where a: "cached = Some a" "auction_cache c1 aid = Some a"
    and r: "get_auction no_faults ?db aid = Some r" "status a = Ended \<longrightarrow> status r = Ended"
    by blast
  show ?thesis
  proof (cases "status a = Active")
    case False
    then have ended: "status a = Ended" by (rule status_not_Active)
    with g1 a first have s1: "s1 = s\<lparr>bot_cache := c1\<rparr>"
      by (simp add: end_auction_def)
    have 1: "\<And>x. auction_cache (bot_cache s1) aid = Some x \<Longrightarrow> status x = Ended"
      using a(2) ended by (simp add: s1)
    have 2: "get_auction no_faults (bot_db s1) aid = Some r"
      using r(1) by (simp add: s1)
    have 3: "status r = Ended"
      using r(2) ended by simp
    show ?thesis
      by (rule end_auction_ended[where f = f' and s = s1, OF 1 2 3 nf])
  next
    case True
    obtain bl c2 where g2: "get_auction_bids_cached f now ?db c1 aid 1 = (bl, c2)"
      by (cases "get_auction_bids_cached f now ?db c1 aid 1")
    let ?w = "case bl of [] \<Rightarrow> None | b # _ \<Rightarrow> Some (user_id b)"
    from first g1 a True g2 have ok: "\<not> f EndAuction"
      by (auto simp: end_auction_def db_end_auction_def split: if_splits)
    with first g1 a True g2 have s1: "s1 = cancel_timer
          (s\<lparr>bot_db := snd (db_end_auction f now ?db aid ?w),
             bot_cache := invalidate_auction_cache c2 aid,
             spawned := spawned s @ [NotifyAuctionEnd aid]\<rparr>) aid"
      by (simp add: end_auction_def db_end_auction_def)
    have r1: "get_auction no_faults (bot_db s1) aid
                = Some (r\<lparr>status := Ended, winner_id := ?w, last_updated := now\<rparr>)"
      using get_auction_after_end[where f = f, OF r(1) ok] by (simp add: s1 cancel_timer_def)
    have c1: "auction_cache (bot_cache s1) aid = None"
      by (simp add: s1 cancel_timer_def invalidate_auction_cache_def)
    have 1: "\<And>x. auction_cache (bot_cache s1) aid = Some x \<Longrightarrow> status x = Ended"
      using c1 by simp
    have 3: "status (r\<lparr>status := Ended, winner_id := ?w, last_updated := now\<rparr>) = Ended"
      by simp
    show ?thesis
      by (rule end_auction_ended[where f = f' and s = s1, OF 1 r1 3 nf])
  qed
qed

theorem close_twice_witness:
  "\<exists>s1 s2. end_auction no_faults 50000 (start_state after_y [7]) 1 = (True, s1) \<and>
           end_auction no_faults 50001 s1 1 = (True, s2) \<and> bot_db s2 = bot_db s1"
proof -
  let ?s = "start_state after_y [7]"
  have coh: "cache_coherent (bot_db ?s) (bot_cache ?s)"
    by (simp add: start_state_def cache_coherent_def empty_cache_def)
  obtain s1 where s1: "end_auction no_faults 50000 ?s 1 = (True, s1)"
    using example_close by (elim exE)
  have nf: "\<not> no_faults GetAuction" by (simp add: no_faults_def)
  from close_twice[where f' = no_faults and now' = 50001, OF coh s1 nf]
  obtain s2 where "end_auction no_faults 50001 s1 1 = (True, s2)" "bot_db s2 = bot_db s1"
    by (elim exE conjE)
  with s1 show ?thesis by (intro exI[of _ s1] exI[of _ s2]) simp
qed

section \<open>The recovery sweep\<close>

lemma schedule_future:
  assumes "now < end_time"
  shows "schedule_auction_end now s aid end_time
           = s\<lparr>active_timers := (active_timers s)(aid \<mapsto> max (end_time - now) 1)\<rparr>"
  using assms by (simp add: schedule_auction_end_def cancel_timer_def Let_def max_def)

lemma cache_coherent_empty: "cache_coherent db empty_cache"
  by (simp add: cache_coherent_def empty_cache_def)

lemma invalidate_empty: "invalidate_auction_cache empty_cache aid = empty_cache"
  by (simp add: invalidate_auction_cache_def empty_cache_def)

lemma latest_bidder_bids: "bids db' = bids db \<Longrightarrow> latest_bidder db' aid = latest_bidder db aid"
  by (simp add: latest_bidder_def bids_by_time_desc_def)

text \<open>Closing from a state with an empty cache leaves the cache empty.\<close>

lemma end_auction_clean:
  assumes clean: "bot_cache s = empty_cache"
    and row: "get_auction no_faults (bot_db s) aid = Some a" and act: "status a = Active"
    and nf: "\<not> f GetAuction" "\<not> f GetBids" "\<not> f EndAuction"
  shows "snd (end_auction f now s aid) =
           s\<lparr>bot_db := (bot_db s)\<lparr>auctions :=
                  map (\<lambda>r. if auction_id r = aid
                            then r\<lparr>status := Ended, winner_id := latest_bidder (bot_db s) aid,
                                   last_updated := now\<rparr>
                            else r) (auctions (bot_db s))\<rparr>,
             active_timers := (active_timers s)(aid := None),
             spawned := spawned s @ [NotifyAuctionEnd aid]\<rparr>"
proof -
  have coh: "cache_coherent (bot_db s) (bot_cache s)"
    by (simp add: clean cache_coherent_empty)
  have "bot_cache s = invalidate_auction_cache (bot_cache s) aid"
    by (simp add: clean invalidate_empty)
  then show ?thesis
    using end_auction_active[where f = f and now = now, OF coh row act nf] nf(3)
    by (simp add: db_end_auction_def)
qed

lemma find_map_other:
  assumes "\<And>x. k (g x) = k x" and "\<And>x. k x = i \<Longrightarrow> g x = x"
  shows "find (\<lambda>x. k x = i) (map g xs) = find (\<lambda>x. k x = i) xs"
  by (induction xs) (auto simp: assms)

text \<open>
  The loop over the expired auctions: every id of the list is closed, with the winner
  that the bids of the store give, and nothing else changes.
\<close>

lemma latest_bidder_rows [simp]:
  "latest_bidder (db\<lparr>auctions := rows\<rparr>) aid = latest_bidder db aid"
  by (simp add: latest_bidder_def bids_by_time_desc_def)

lemma close_loop:
  assumes clean: "bot_cache s = empty_cache"
    and nf: "\<not> f GetAuction" "\<not> f GetBids" "\<not> f EndAuction"
    and dist: "distinct (map auction_id xs)"
    and rows: "\<forall>x \<in> set xs. \<exists>r. get_auction no_faults (bot_db s) (auction_id x) = Some r \<and>
                 status r = Active"
  shows "bot_cache (foldl (\<lambda>s' a. snd (end_auction f now s' (auction_id a))) s xs) = empty_cache \<and>
         bot_guilds (foldl (\<lambda>s' a. snd (end_auction f now s' (auction_id a))) s xs) = bot_guilds s \<and>
         bids (bot_db (foldl (\<lambda>s' a. snd (end_auction f now s' (auction_id a))) s xs))
           = bids (bot_db s) \<and>
         auctions (bot_db (foldl (\<lambda>s' a. snd (end_auction f now s' (auction_id a))) s xs))
           = map (\<lambda>r. if auction_id r \<in> auction_id ` set xs
                       then r\<lparr>status := Ended,
                              winner_id := latest_bidder (bot_db s) (auction_id r),
                              last_updated := now\<rparr>
                       else r) (auctions (bot_db s)) \<and>
         active_timers (foldl (\<lambda>s' a. snd (end_auction f now s' (auction_id a))) s xs)
           = (\<lambda>k. if k \<in> auction_id ` set xs then None else active_timers s k)"
  using assms
proof (induction xs arbitrary: s)
  case Nil
  then show ?case by simp
next
  case (Cons x xs)
  let ?aid = "auction_id x"
  let ?g = "\<lambda>r. if auction_id r = ?aid
                 then r\<lparr>status := Ended, winner_id := latest_bidder (bot_db s) ?aid,
                        last_updated := now\<rparr>
                 else r"
  let ?s1 = "s\<lparr>bot_db := (bot_db s)\<lparr>auctions := map ?g (auctions (bot_db s))\<rparr>,
               active_timers := (active_timers s)(?aid := None),
               spawned := spawned s @ [NotifyAuctionEnd ?aid]\<rparr>"
  let ?end = "foldl (\<lambda>s' a. snd (end_auction f now s' (auction_id a))) ?s1 xs"
  from Cons.prems(6) obtain r where r: "get_auction no_faults (bot_db s) ?aid = Some r"
      "status r = Active"
    by auto
  have step: "snd (end_auction f now s ?aid) = ?s1"
    by (rule end_auction_clean[OF Cons.prems(1) r Cons.prems(2,3,4)])
  then have fold: "foldl (\<lambda>s' a. snd (end_auction f now s' (auction_id a))) s (x # xs) = ?end"
    by simp
  have clean1: "bot_cache ?s1 = empty_cache" using Cons.prems(1) by simp
  have dist1: "distinct (map auction_id xs)" using Cons.prems(5) by simp
  have notin: "?aid \<notin> auction_id ` set xs" using Cons.prems(5) by simp
  have rows1: "\<forall>y \<in> set xs. \<exists>r. get_auction no_faults (bot_db ?s1) (auction_id y) = Some r \<and>
                 status r = Active"
  proof
    fix y assume y: "y \<in> set xs"
    with notin have ne: "auction_id y \<noteq> ?aid" by (metis imageI)
    have "find (\<lambda>r. auction_id r = auction_id y) (map ?g (auctions (bot_db s)))
            = find (\<lambda>r. auction_id r = auction_id y) (auctions (bot_db s))"
      by (rule find_map_other) (use ne in auto)
    with Cons.prems(6) y show "\<exists>r. get_auction no_faults (bot_db ?s1) (auction_id y) = Some r \<and>
                 status r = Active"
      by (simp add: get_auction_def no_faults_def)
  qed
  note ih = Cons.IH[OF clean1 Cons.prems(2,3,4) dist1 rows1]
  have 1: "bot_cache ?end = empty_cache" using ih by simp
  have 2: "bot_guilds ?end = bot_guilds s" using ih by simp
  have 3: "bids (bot_db ?end) = bids (bot_db s)" using ih by simp
  have "auctions (bot_db ?end) =
          map (\<lambda>r. if auction_id r \<in> auction_id ` set xs
                       then r\<lparr>status := Ended,
                              winner_id := latest_bidder (bot_db ?s1) (auction_id r),
                              last_updated := now\<rparr>
                       else r) (auctions (bot_db ?s1))"
    using ih by blast
  also have "\<dots> = map (\<lambda>r. if auction_id r \<in> auction_id ` set (x # xs)
                       then r\<lparr>status := Ended,
                              winner_id := latest_bidder (bot_db s) (auction_id r),
                              last_updated := now\<rparr>
                       else r) (auctions (bot_db s))"
    using notin by auto
  finally have 4: "auctions (bot_db ?end) =
          map (\<lambda>r. if auction_id r \<in> auction_id ` set (x # xs)
                       then r\<lparr>status := Ended,
                              winner_id := latest_bidder (bot_db s) (auction_id r),
                              last_updated := now\<rparr>
                       else r) (auctions (bot_db s))" .
  have "active_timers ?end = (\<lambda>k. if k \<in> auction_id ` set xs then None else active_timers ?s1 k)"
    using ih by blast
  also have "\<dots> = (\<lambda>k. if k \<in> auction_id ` set (x # xs) then None else active_timers s k)"
    by (rule ext) auto
  finally have 5: "active_timers ?end =
      (\<lambda>k. if k \<in> auction_id ` set (x # xs) then None else active_timers s k)" .
  show ?case
    unfolding fold using 1 2 3 4 5 by (intro conjI)
qed

text \<open>
  The loop over the active auctions of one guild, when the end of each is still ahead:
  every one gets a timer, and only timers change.
\<close>

lemma schedule_loop:
  assumes "\<forall>a \<in> set xs. now < ends_at a"
  shows "bot_db (foldl (\<lambda>s' a. if ends_at a > now
                                 then schedule_auction_end now s' (auction_id a) (ends_at a)
                                 else snd (end_auction f now s' (auction_id a))) s xs) = bot_db s \<and>
         (\<forall>k. k \<notin> auction_id ` set xs \<longrightarrow>
            active_timers (foldl (\<lambda>s' a. if ends_at a > now
                                 then schedule_auction_end now s' (auction_id a) (ends_at a)
                                 else snd (end_auction f now s' (auction_id a))) s xs) k
              = active_timers s k) \<and>
         (\<forall>k \<in> auction_id ` set xs. \<exists>a \<in> set xs. auction_id a = k \<and>
            active_timers (foldl (\<lambda>s' a. if ends_at a > now
                                 then schedule_auction_end now s' (auction_id a) (ends_at a)
                                 else snd (end_auction f now s' (auction_id a))) s xs) k
              = Some (max (ends_at a - now) 1))"
  using assms
proof (induction xs arbitrary: s)
  case Nil
  show ?case by simp
next
  case (Cons x xs)
  let ?F = "\<lambda>s' a. if ends_at a > now
                     then schedule_auction_end now s' (auction_id a) (ends_at a)
                     else snd (end_auction f now s' (auction_id a))"
  let ?s1 = "s\<lparr>active_timers := (active_timers s)(auction_id x \<mapsto> max (ends_at x - now) 1)\<rparr>"
  from Cons.prems have x: "now < ends_at x" and xs: "\<forall>a \<in> set xs. now < ends_at a" by auto
  have fold: "foldl ?F s (x # xs) = foldl ?F ?s1 xs"
    using x by (simp add: schedule_future)
  note ih = Cons.IH[OF xs, of ?s1]
  have 1: "bot_db (foldl ?F ?s1 xs) = bot_db s" using ih by simp
  have 2: "\<forall>k. k \<notin> auction_id ` set (x # xs) \<longrightarrow>
             active_timers (foldl ?F ?s1 xs) k = active_timers s k"
    using ih by simp
  have 3: "\<forall>k \<in> auction_id ` set (x # xs). \<exists>a \<in> set (x # xs). auction_id a = k \<and>
             active_timers (foldl ?F ?s1 xs) k = Some (max (ends_at a - now) 1)"
  proof
    fix k assume k: "k \<in> auction_id ` set (x # xs)"
    show "\<exists>a \<in> set (x # xs). auction_id a = k \<and>
             active_timers (foldl ?F ?s1 xs) k = Some (max (ends_at a - now) 1)"
    proof (cases "k \<in> auction_id ` set xs")
      case True
      with ih obtain a where "a \<in> set xs" "auction_id a = k"
          "active_timers (foldl ?F ?s1 xs) k = Some (max (ends_at a - now) 1)"
        by blast
      then show ?thesis by auto
    next
      case False
      with k have kx: "k = auction_id x" by auto
      from False ih have "active_timers (foldl ?F ?s1 xs) k = active_timers ?s1 k" by blast
      with kx show ?thesis by simp
    qed
  qed
  show ?case unfolding fold using 1 2 3 by (intro conjI)
qed

lemma guild_loop:
  assumes "\<forall>g. \<forall>a \<in> set (get_active_auctions f (bot_db s) g). now < ends_at a"
  shows "bot_db (foldl (recover_guild f now) s gs) = bot_db s \<and>
         (\<forall>k. (\<forall>g \<in> set gs. k \<notin> auction_id ` set (get_active_auctions f (bot_db s) g)) \<longrightarrow>
            active_timers (foldl (recover_guild f now) s gs) k = active_timers s k) \<and>
         (\<forall>g \<in> set gs. \<forall>k \<in> auction_id ` set (get_active_auctions f (bot_db s) g).
            \<exists>g' \<in> set gs. \<exists>a \<in> set (get_active_auctions f (bot_db s) g').
              auction_id a = k \<and>
              active_timers (foldl (recover_guild f now) s gs) k
                = Some (max (ends_at a - now) 1))"
  using assms
proof (induction gs arbitrary: s)
  case Nil
  show ?case by simp
next
  case (Cons g gs)
  let ?L = "\<lambda>g. get_active_auctions f (bot_db s) g"
  let ?s1 = "recover_guild f now s g"
  let ?end = "foldl (recover_guild f now) ?s1 gs"
  from Cons.prems have fut: "\<forall>a \<in> set (?L g). now < ends_at a" by blast
  note sl = schedule_loop[OF fut, of f s, folded recover_guild_def]
  have db1: "bot_db ?s1 = bot_db s" using sl by blast
  have pre1: "\<forall>g. \<forall>a \<in> set (get_active_auctions f (bot_db ?s1) g). now < ends_at a"
    using Cons.prems by (simp add: db1)
  note ih = Cons.IH[OF pre1, unfolded db1]
  have 1: "bot_db ?end = bot_db s" using ih by blast
  have 2: "\<forall>k. (\<forall>g' \<in> set (g # gs). k \<notin> auction_id ` set (?L g')) \<longrightarrow>
             active_timers ?end k = active_timers s k"
  proof (intro allI impI)
    fix k assume k: "\<forall>g' \<in> set (g # gs). k \<notin> auction_id ` set (?L g')"
    then have "\<forall>g' \<in> set gs. k \<notin> auction_id ` set (?L g')" by simp
    with ih have "active_timers ?end k = active_timers ?s1 k" by blast
    moreover from k have "k \<notin> auction_id ` set (?L g)" by simp
    with sl have "active_timers ?s1 k = active_timers s k" by blast
    ultimately show "active_timers ?end k = active_timers s k" by simp
  qed
  have 3: "\<forall>g0 \<in> set (g # gs). \<forall>k \<in> auction_id ` set (?L g0).
            \<exists>g' \<in> set (g # gs). \<exists>a \<in> set (?L g'). auction_id a = k \<and>
              active_timers ?end k = Some (max (ends_at a - now) 1)"
  proof (intro ballI)
    fix g0 k assume g0: "g0 \<in> set (g # gs)" and k: "k \<in> auction_id ` set (?L g0)"
    show "\<exists>g' \<in> set (g # gs). \<exists>a \<in> set (?L g'). auction_id a = k \<and>
              active_timers ?end k = Some (max (ends_at a - now) 1)"
    proof (cases "\<exists>g1 \<in> set gs. k \<in> auction_id ` set (?L g1)")
      case True
      then obtain g1 where "g1 \<in> set gs" "k \<in> auction_id ` set (?L g1)" by blast
      with ih obtain g' a where "g' \<in> set gs" "a \<in> set (?L g')" "auction_id a = k"
          "active_timers ?end k = Some (max (ends_at a - now) 1)"
        by blast
      then show ?thesis by auto
    next
      case False
      with g0 k have kg: "k \<in> auction_id ` set (?L g)" by auto
      from False ih have "active_timers ?end k = active_timers ?s1 k" by blast
      moreover from kg sl obtain a where "a \<in> set (?L g)" "auction_id a = k"
          "active_timers ?s1 k = Some (max (ends_at a - now) 1)"
        by blast
      ultimately show ?thesis by auto
    qed
  qed
  have fold: "foldl (recover_guild f now) s (g # gs) = ?end" by simp
  show ?case unfolding fold using 1 2 3 by (intro conjI)
qed

lemma filter_map_same:
  assumes "\<forall>x \<in> set xs. (P (h x) \<longleftrightarrow> Q x) \<and> (Q x \<longrightarrow> h x = x)"
  shows "filter P (map h xs) = filter Q xs"
  using assms by (induction xs) auto

text \<open>
  Claim C7, as amended. Start the process on a store with unique auction ids that
  answers its calls, in the guilds \<open>gs\<close>. After the recovery sweep:
  \<^item> every auction that was active with an end time at or before \<open>now\<close> is ended, with the
    user of its newest bid as winner, and has no timer;
  \<^item> for every guild of \<open>gs\<close>, each of the first fifty (by end time) of its active
    auctions whose end is still ahead is unchanged in the store and has a timer, whose
    delay is the remaining time, or one second when less than one second remains;
  \<^item> there is no other timer.
  An active auction of a guild that is not in \<open>gs\<close>, or beyond the first fifty of its
  guild, gets no timer from the sweep.
\<close>

theorem recovery_sweep:
  assumes dist: "distinct (map auction_id (auctions d))"
    and nf: "\<not> f GetExpired" "\<not> f GetActive" "\<not> f GetAuction" "\<not> f GetBids"
            "\<not> f EndAuction"
  shows
    "(\<forall>a \<in> set (auctions d). status a = Active \<and> ends_at a \<le> now \<longrightarrow>
        get_auction no_faults (bot_db (recover_active_auctions f now (start_state d gs)))
            (auction_id a)
          = Some (a\<lparr>status := Ended, winner_id := latest_bidder d (auction_id a),
                    last_updated := now\<rparr>) \<and>
        active_timers (recover_active_auctions f now (start_state d gs)) (auction_id a) = None) \<and>
     (\<forall>g \<in> set gs. \<forall>a \<in> set (take 50 (sort_key ends_at
            (filter (\<lambda>a. guild_id a = g \<and> status a = Active \<and> now < ends_at a) (auctions d)))).
        active_timers (recover_active_auctions f now (start_state d gs)) (auction_id a)
          = Some (max (ends_at a - now) 1) \<and>
        get_auction no_faults (bot_db (recover_active_auctions f now (start_state d gs)))
            (auction_id a) = Some a) \<and>
     (\<forall>k t. active_timers (recover_active_auctions f now (start_state d gs)) k = Some t \<longrightarrow>
        (\<exists>g \<in> set gs. \<exists>a \<in> set (take 50 (sort_key ends_at
            (filter (\<lambda>a. guild_id a = g \<and> status a = Active \<and> now < ends_at a) (auctions d)))).
           auction_id a = k))"
proof -
  let ?rows = "auctions d"
  let ?s0 = "start_state d gs"
  let ?ex = "filter (\<lambda>a. status a = Active \<and> ends_at a \<le> now) ?rows"
  let ?s1 = "foldl (\<lambda>s' a. snd (end_auction f now s' (auction_id a))) ?s0 ?ex"
  let ?s2 = "foldl (recover_guild f now) ?s1 gs"
  let ?h = "\<lambda>r. if auction_id r \<in> auction_id ` set ?ex
                 then r\<lparr>status := Ended, winner_id := latest_bidder d (auction_id r),
                        last_updated := now\<rparr>
                 else r"
  let ?T = "\<lambda>g. take 50 (sort_key ends_at
              (filter (\<lambda>a. guild_id a = g \<and> status a = Active \<and> now < ends_at a) ?rows))"
  have db0: "bot_db ?s0 = d" and c0: "bot_cache ?s0 = empty_cache"
    and g0: "bot_guilds ?s0 = gs" and t0: "active_timers ?s0 = Map.empty"
    by (simp_all add: start_state_def)
  have uniq: "\<And>x y. x \<in> set ?rows \<Longrightarrow> y \<in> set ?rows \<Longrightarrow> auction_id x = auction_id y \<Longrightarrow> x = y"
    using dist by (metis distinct_key_unique)
  have found: "\<And>x. x \<in> set ?rows \<Longrightarrow> find (\<lambda>r. auction_id r = auction_id x) ?rows = Some x"
    using dist by (rule find_distinct_key)
  have dex: "distinct (map auction_id ?ex)"
    using dist by (rule distinct_map_filter)
  have rex: "\<forall>x \<in> set ?ex. \<exists>r. get_auction no_faults (bot_db ?s0) (auction_id x) = Some r \<and>
               status r = Active"
    using found by (auto simp: db0 get_auction_def no_faults_def)
  note cl = close_loop[where f = f and now = now, OF c0 nf(3,4,5) dex rex, unfolded db0 g0 t0]
  have rows1: "auctions (bot_db ?s1) = map ?h ?rows" using cl by blast
  have timers1: "\<And>k. active_timers ?s1 k = None" using cl by simp
  have guilds1: "bot_guilds ?s1 = gs" using cl by blast
  have inex: "\<And>r. r \<in> set ?rows \<Longrightarrow>
      (auction_id r \<in> auction_id ` set ?ex) = (status r = Active \<and> ends_at r \<le> now)"
  proof -
    fix r assume r: "r \<in> set ?rows"
    show "(auction_id r \<in> auction_id ` set ?ex) = (status r = Active \<and> ends_at r \<le> now)"
    proof
      assume "auction_id r \<in> auction_id ` set ?ex"
      then obtain x where x: "x \<in> set ?ex" "auction_id r = auction_id x" by auto
      then have xr: "x \<in> set ?rows" by simp
      from r xr x(2) have "r = x" by (rule uniq)
      with x(1) show "status r = Active \<and> ends_at r \<le> now" by simp
    next
      assume "status r = Active \<and> ends_at r \<le> now"
      with r have "r \<in> set ?ex" by simp
      then show "auction_id r \<in> auction_id ` set ?ex" by (rule imageI)
    qed
  qed
  have getrow: "\<And>a. a \<in> set ?rows \<Longrightarrow> get_auction no_faults (bot_db ?s1) (auction_id a) = Some (?h a)"
  proof -
    fix a assume a: "a \<in> set ?rows"
    have "find (\<lambda>r. auction_id r = auction_id a) (map ?h ?rows)
            = map_option ?h (find (\<lambda>r. auction_id r = auction_id a) ?rows)"
      by (rule find_map_key) simp
    with found[OF a] show "get_auction no_faults (bot_db ?s1) (auction_id a) = Some (?h a)"
      by (simp add: get_auction_def no_faults_def rows1)
  qed
  have active1: "\<And>g. get_active_auctions f (bot_db ?s1) g = ?T g"
  proof -
    fix g
    have "filter (\<lambda>a. guild_id a = g \<and> status a = Active) (map ?h ?rows)
            = filter (\<lambda>a. guild_id a = g \<and> status a = Active \<and> now < ends_at a) ?rows"
    proof (rule filter_map_same, rule ballI)
      fix x assume x: "x \<in> set ?rows"
      show "((guild_id (?h x) = g \<and> status (?h x) = Active)
               \<longleftrightarrow> (guild_id x = g \<and> status x = Active \<and> now < ends_at x)) \<and>
            ((guild_id x = g \<and> status x = Active \<and> now < ends_at x) \<longrightarrow> ?h x = x)"
        unfolding inex[OF x] by auto
    qed
    then show "get_active_auctions f (bot_db ?s1) g = ?T g"
      using nf(2) by (simp add: get_active_auctions_def rows1)
  qed
  have inT: "\<And>g a. a \<in> set (?T g) \<Longrightarrow> a \<in> set ?rows \<and> now < ends_at a"
  proof -
    fix g a assume "a \<in> set (?T g)"
    then have "a \<in> set (sort_key ends_at
        (filter (\<lambda>a. guild_id a = g \<and> status a = Active \<and> now < ends_at a) ?rows))"
      by (rule in_set_takeD)
    then show "a \<in> set ?rows \<and> now < ends_at a" by simp
  qed
  have fut: "\<forall>g. \<forall>a \<in> set (get_active_auctions f (bot_db ?s1) g). now < ends_at a"
    unfolding active1 using inT by blast
  note gl = guild_loop[where f = f and now = now and s = ?s1 and gs = gs, OF fut,
                       unfolded active1]
  have rec: "recover_active_auctions f now ?s0 = ?s2"
    using nf(1) by (simp add: recover_active_auctions_def get_expired_auctions_def db0 guilds1)
  have db2: "bot_db ?s2 = bot_db ?s1" using gl by blast
  have keep: "\<And>k. (\<forall>g \<in> set gs. k \<notin> auction_id ` set (?T g)) \<Longrightarrow> active_timers ?s2 k = None"
    using gl timers1 by simp
  have armed: "\<And>g a. g \<in> set gs \<Longrightarrow> a \<in> set (?T g) \<Longrightarrow>
      active_timers ?s2 (auction_id a) = Some (max (ends_at a - now) 1)"
  proof -
    fix g a assume g: "g \<in> set gs" and a: "a \<in> set (?T g)"
    then have "auction_id a \<in> auction_id ` set (?T g)" by simp
    with gl g obtain g' a' where a': "a' \<in> set (?T g')" "auction_id a' = auction_id a"
        "active_timers ?s2 (auction_id a) = Some (max (ends_at a' - now) 1)"
      by blast
    from inT[OF a'(1)] inT[OF a] a'(2) have "a' = a" by (auto intro: uniq)
    with a'(3) show "active_timers ?s2 (auction_id a) = Some (max (ends_at a - now) 1)" by simp
  qed
  have A: "\<forall>a \<in> set ?rows. status a = Active \<and> ends_at a \<le> now \<longrightarrow>
        get_auction no_faults (bot_db ?s2) (auction_id a)
          = Some (a\<lparr>status := Ended, winner_id := latest_bidder d (auction_id a),
                    last_updated := now\<rparr>) \<and>
        active_timers ?s2 (auction_id a) = None"
  proof (intro ballI impI)
    fix a assume a: "a \<in> set ?rows" and ex: "status a = Active \<and> ends_at a \<le> now"
    from getrow[OF a] inex[OF a] ex
    have 1: "get_auction no_faults (bot_db ?s2) (auction_id a)
          = Some (a\<lparr>status := Ended, winner_id := latest_bidder d (auction_id a),
                    last_updated := now\<rparr>)"
      by (simp add: db2)
    have "\<forall>g \<in> set gs. auction_id a \<notin> auction_id ` set (?T g)"
    proof (intro ballI notI)
      fix g assume "auction_id a \<in> auction_id ` set (?T g)"
      then obtain a' where a': "a' \<in> set (?T g)" "auction_id a = auction_id a'" by auto
      from inT[OF a'(1)] a a'(2) have "a = a'" "now < ends_at a'" by (auto intro: uniq)
      with ex show False by simp
    qed
    then have 2: "active_timers ?s2 (auction_id a) = None" by (rule keep)
    from 1 2 show "get_auction no_faults (bot_db ?s2) (auction_id a)
          = Some (a\<lparr>status := Ended, winner_id := latest_bidder d (auction_id a),
                    last_updated := now\<rparr>) \<and>
        active_timers ?s2 (auction_id a) = None" by (rule conjI)
  qed
  have B: "\<forall>g \<in> set gs. \<forall>a \<in> set (?T g).
        active_timers ?s2 (auction_id a) = Some (max (ends_at a - now) 1) \<and>
        get_auction no_faults (bot_db ?s2) (auction_id a) = Some a"
  proof (intro ballI)
    fix g a assume g: "g \<in> set gs" and a: "a \<in> set (?T g)"
    from inT[OF a] have ar: "a \<in> set ?rows" and fu: "now < ends_at a" by auto
    from getrow[OF ar] inex[OF ar] fu have "get_auction no_faults (bot_db ?s2) (auction_id a) = Some a"
      by (simp add: db2)
    with armed[OF g a] show "active_timers ?s2 (auction_id a) = Some (max (ends_at a - now) 1) \<and>
        get_auction no_faults (bot_db ?s2) (auction_id a) = Some a" by (rule conjI)
  qed
  have C: "\<forall>k t. active_timers ?s2 k = Some t \<longrightarrow>
        (\<exists>g \<in> set gs. \<exists>a \<in> set (?T g). auction_id a = k)"
  proof (intro allI impI)
    fix k t assume k: "active_timers ?s2 k = Some t"
    show "\<exists>g \<in> set gs. \<exists>a \<in> set (?T g). auction_id a = k"
    proof (rule ccontr)
      assume "\<not> (\<exists>g \<in> set gs. \<exists>a \<in> set (?T g). auction_id a = k)"
      then have "\<forall>g \<in> set gs. k \<notin> auction_id ` set (?T g)" by auto
      then have "active_timers ?s2 k = None" by (rule keep)
      with k show False by simp
    qed
  qed
  show ?thesis unfolding rec using A B C by (intro conjI)
qed

text \<open>
  The scenario of the specification: A is closed (with no winner, there is no bid), B is
  unchanged, and the timer table holds exactly one timer, for B, with delay 500.
\<close>

theorem recovery_sweep_witness:
  "distinct (map auction_id (auctions sweep_db)) \<and>
   map status (auctions (bot_db (recover_active_auctions no_faults 500 (start_state sweep_db [7]))))
     = [Ended, Active] \<and>
   get_auction no_faults (bot_db (recover_active_auctions no_faults 500 (start_state sweep_db [7]))) 1
     = Some (auction_A\<lparr>status := Ended, winner_id := None, last_updated := 500\<rparr>) \<and>
   get_auction no_faults (bot_db (recover_active_auctions no_faults 500 (start_state sweep_db [7]))) 2
     = Some auction_B \<and>
   active_timers (recover_active_auctions no_faults 500 (start_state sweep_db [7])) 2 = Some 500 \<and>
   dom (active_timers (recover_active_auctions no_faults 500 (start_state sweep_db [7]))) = {2}"
proof -
  let ?s = "recover_active_auctions no_faults 500 (start_state sweep_db [7])"
  have dist: "distinct (map auction_id (auctions sweep_db))"
    by (simp add: sweep_db_def auction_A_def auction_B_def)
  have nf: "\<not> no_faults GetExpired" "\<not> no_faults GetActive" "\<not> no_faults GetAuction"
      "\<not> no_faults GetBids" "\<not> no_faults EndAuction"
    by (simp_all add: no_faults_def)
  have T: "\<And>g. take 50 (sort_key ends_at
            (filter (\<lambda>a. guild_id a = g \<and> status a = Active \<and> 500 < ends_at a) (auctions sweep_db)))
           = (if g = 7 then [auction_B] else [])"
    by (simp add: sweep_db_def auction_A_def auction_B_def example_auction_def)
  have lb: "latest_bidder sweep_db 1 = None"
    by (simp add: latest_bidder_def bids_by_time_desc_def sweep_db_def)
  note th = recovery_sweep[where f = no_faults and now = 500 and gs = "[7]", OF dist nf]
  from th have A: "get_auction no_faults (bot_db ?s) 1
     = Some (auction_A\<lparr>status := Ended, winner_id := None, last_updated := 500\<rparr>)"
    using lb by (simp add: sweep_db_def auction_A_def auction_B_def example_auction_def)
  from th have B: "active_timers ?s 2 = Some 500 \<and> get_auction no_faults (bot_db ?s) 2 = Some auction_B"
    unfolding T by (simp add: auction_B_def example_auction_def)
  from th have C: "\<And>k t. active_timers ?s k = Some t \<Longrightarrow> k = 2"
    unfolding T by (simp add: auction_B_def example_auction_def)
  from B C have D: "dom (active_timers ?s) = {2}" by auto
  have E: "map status (auctions (bot_db ?s)) = [Ended, Active]"
    by (simp add: recover_active_auctions_def recover_guild_def get_expired_auctions_def
          get_active_auctions_def start_state_def schedule_auction_end_def cancel_timer_def
          end_auction_def get_auction_cached_def auction_cache_lookup_def get_auction_def
          get_auction_bids_cached_def bid_cache_lookup_def get_auction_bids_def
          bids_by_time_desc_def db_end_auction_def invalidate_auction_cache_def empty_cache_def
          no_faults_def sweep_db_def auction_A_def auction_B_def example_auction_def Let_def)
  from dist E A B D show ?thesis by simp
qed

text \<open>
  The claim as stated fails where the sweep is selective. When the bot is not in guild 7
  the active auction B, whose end is ahead, gets no timer; and auction C, with half a
  second left, gets a timer of one second.
\<close>

theorem recovery_sweep_counterexample:
  "status auction_B = Active \<and> 500 < ends_at auction_B \<and>
   active_timers (recover_active_auctions no_faults 500 (start_state future_db [8])) 2 = None \<and>
   status auction_C = Active \<and> ends_at auction_C - 500 = 0.5 \<and>
   active_timers (recover_active_auctions no_faults 500 (start_state soon_db [7])) 3 = Some 1"
  by (simp add: recover_active_auctions_def recover_guild_def get_expired_auctions_def
        get_active_auctions_def start_state_def schedule_auction_end_def cancel_timer_def
        no_faults_def future_db_def soon_db_def auction_B_def auction_C_def example_auction_def
        Let_def)

section \<open>The cache stays coherent with the store\<close>

lemma cache_coherent_get_auction_cached:
  assumes "cache_coherent db c"
  shows "cache_coherent db (snd (get_auction_cached f now db c aid))"
proof (cases rule: get_auction_cached_cases[of c aid f now db])
  case (hit a)
  with assms show ?thesis by simp
next
  case (fill a)
  then have "get_auction no_faults db aid = Some a"
    by (auto simp: get_auction_def no_faults_def split: if_splits)
  with assms fill(3) show ?thesis
    by (auto simp: cache_coherent_def)
next
  case absent
  with assms show ?thesis by simp
qed

lemma cache_coherent_get_auction_bids_cached:
  assumes "cache_coherent db c"
  shows "cache_coherent db (snd (get_auction_bids_cached f now db c aid limit))"
proof (cases rule: get_auction_bids_cached_cases[of c aid f now db limit])
  case (hit bl)
  with assms show ?thesis by simp
next
  case fill
  from fill(2) have "get_auction_bids f db aid (max (limit * 3) 20)
      = take (max (limit * 3) 20) (bids_by_time_desc db aid)"
    by (auto simp: get_auction_bids_def split: if_splits)
  then have "take 1 (get_auction_bids f db aid (max (limit * 3) 20))
      = take 1 (bids_by_time_desc db aid)"
    by (simp add: min_def)
  with assms fill(3) show ?thesis
    by (auto simp: cache_coherent_def)
next
  case none
  with assms show ?thesis by simp
qed

lemma cache_coherent_invalidate_auction_cache:
  "cache_coherent db c \<Longrightarrow> cache_coherent db (invalidate_auction_cache c aid)"
  by (auto simp: cache_coherent_def invalidate_auction_cache_def)

lemma cache_coherent_invalidate_bid_cache:
  "cache_coherent db c \<Longrightarrow> cache_coherent db (invalidate_bid_cache c aid)"
  by (auto simp: cache_coherent_def invalidate_bid_cache_def)

lemma cache_coherent_get_bid_count:
  "cache_coherent db c \<Longrightarrow> cache_coherent db (snd (get_bid_count f db c aid))"
  by (auto simp: cache_coherent_def get_bid_count_def Let_def split: option.splits)

lemma cache_coherent_increment_bid_count:
  "cache_coherent db c \<Longrightarrow> cache_coherent db (snd (increment_bid_count f db c aid))"
  by (auto simp: cache_coherent_def increment_bid_count_def Let_def split: option.splits)

lemma cache_coherent_cleanup_expired_cache:
  "cache_coherent db c \<Longrightarrow> cache_coherent db (cleanup_expired_cache now c)"
  by (auto simp: cache_coherent_def cleanup_expired_cache_def sweep_def
           split: option.splits if_splits)

lemma cache_coherent_preload:
  "cache_coherent db c \<Longrightarrow> cache_coherent db (preload_auction_data f now db c aid)"
  by (simp add: preload_auction_data_def Let_def cache_coherent_get_auction_cached
        cache_coherent_get_auction_bids_cached)

lemma cache_coherent_embed:
  "cache_coherent db c \<Longrightarrow> cache_coherent db (create_auction_embed f now db c aid)"
  by (auto simp: create_auction_embed_def Let_def split: prod.splits option.splits
           dest: cache_coherent_get_auction_cached[where f = f and now = now and aid = aid]
           intro!: cache_coherent_get_auction_bids_cached)

text \<open>
  A write to the store that rewrites rows, keeps their ids and keeps ended rows ended,
  and that adds bids only to the auction \<open>aid\<close>, followed by the invalidation of \<open>aid\<close>.
\<close>

lemma cache_coherent_write:
  assumes coh: "cache_coherent db c"
    and g: "\<And>r. auction_id (g r) = auction_id r" "\<And>r. status r = Ended \<Longrightarrow> status (g r) = Ended"
    and rows: "auctions db' = map g (auctions db)"
    and bds: "bids db' = bids db \<or> (\<exists>b. bids db' = bids db @ [b] \<and> bid_auction_id b = aid)"
  shows "cache_coherent db' (invalidate_auction_cache c aid)"
proof -
  have get: "\<And>k. get_auction no_faults db' k = map_option g (get_auction no_faults db k)"
  proof -
    fix k
    have "find (\<lambda>x. auction_id x = k) (map g (auctions db))
            = map_option g (find (\<lambda>x. auction_id x = k) (auctions db))"
      by (rule find_map_key) (rule g(1))
    then show "get_auction no_faults db' k = map_option g (get_auction no_faults db k)"
      by (simp add: get_auction_def no_faults_def rows)
  qed
  have other: "\<And>k. k \<noteq> aid \<Longrightarrow> bids_by_time_desc db' k = bids_by_time_desc db k"
    using bds by (auto simp: bids_by_time_desc_def)
  have 1: "\<forall>k a. auction_cache (invalidate_auction_cache c aid) k = Some a \<longrightarrow>
        (\<exists>r. get_auction no_faults db' k = Some r \<and> (status a = Ended \<longrightarrow> status r = Ended))"
  proof (intro allI impI)
    fix k a assume "auction_cache (invalidate_auction_cache c aid) k = Some a"
    then have "auction_cache c k = Some a"
      by (auto simp: invalidate_auction_cache_def split: if_splits)
    with coh obtain r where "get_auction no_faults db k = Some r"
        "status a = Ended \<longrightarrow> status r = Ended"
      unfolding cache_coherent_def by blast
    with g(2) show "\<exists>r. get_auction no_faults db' k = Some r \<and>
        (status a = Ended \<longrightarrow> status r = Ended)"
      by (auto simp: get)
  qed
  have 2: "\<forall>k bl. bid_cache (invalidate_auction_cache c aid) k = Some bl \<longrightarrow>
        take 1 bl = take 1 (bids_by_time_desc db' k)"
  proof (intro allI impI)
    fix k bl assume "bid_cache (invalidate_auction_cache c aid) k = Some bl"
    then have "bid_cache c k = Some bl" "k \<noteq> aid"
      by (auto simp: invalidate_auction_cache_def split: if_splits)
    with coh other show "take 1 bl = take 1 (bids_by_time_desc db' k)"
      unfolding cache_coherent_def by simp
  qed
  from 1 2 show ?thesis unfolding cache_coherent_def by (rule conjI)
qed

text \<open>The same without a new bid keeps every entry coherent, invalidated or not.\<close>

lemma cache_coherent_rows:
  assumes coh: "cache_coherent db c"
    and g: "\<And>r. auction_id (g r) = auction_id r" "\<And>r. status r = Ended \<Longrightarrow> status (g r) = Ended"
    and rows: "auctions db' = map g (auctions db)"
    and bds: "bids db' = bids db"
  shows "cache_coherent db' c"
proof -
  have get: "\<And>k. get_auction no_faults db' k = map_option g (get_auction no_faults db k)"
  proof -
    fix k
    have "find (\<lambda>x. auction_id x = k) (map g (auctions db))
            = map_option g (find (\<lambda>x. auction_id x = k) (auctions db))"
      by (rule find_map_key) (rule g(1))
    then show "get_auction no_faults db' k = map_option g (get_auction no_faults db k)"
      by (simp add: get_auction_def no_faults_def rows)
  qed
  have same: "\<And>k. bids_by_time_desc db' k = bids_by_time_desc db k"
    using bds by (simp add: bids_by_time_desc_def)
  have 1: "\<forall>k a. auction_cache c k = Some a \<longrightarrow>
        (\<exists>r. get_auction no_faults db' k = Some r \<and> (status a = Ended \<longrightarrow> status r = Ended))"
  proof (intro allI impI)
    fix k a assume "auction_cache c k = Some a"
    with coh obtain r where "get_auction no_faults db k = Some r"
        "status a = Ended \<longrightarrow> status r = Ended"
      unfolding cache_coherent_def by blast
    with g(2) show "\<exists>r. get_auction no_faults db' k = Some r \<and>
        (status a = Ended \<longrightarrow> status r = Ended)"
      by (auto simp: get)
  qed
  have 2: "\<forall>k bl. bid_cache c k = Some bl \<longrightarrow> take 1 bl = take 1 (bids_by_time_desc db' k)"
    using coh unfolding cache_coherent_def same by blast
  from 1 2 show ?thesis unfolding cache_coherent_def by (rule conjI)
qed

lemma cache_coherent_create:
  assumes coh: "cache_coherent db c" and cr: "db_create_auction f now db d = Some (aid, db')"
  shows "cache_coherent db' c"
proof -
  from cr obtain row where db': "auctions db' = auctions db @ [row]" "bids db' = bids db"
    by (auto simp: db_create_auction_def Let_def split: if_splits)
  have get: "\<And>k r. get_auction no_faults db k = Some r \<Longrightarrow> get_auction no_faults db' k = Some r"
    by (simp add: get_auction_def no_faults_def db' find_append_Some)
  have same: "\<And>k. bids_by_time_desc db' k = bids_by_time_desc db k"
    using db' by (simp add: bids_by_time_desc_def)
  show ?thesis
    using coh get unfolding cache_coherent_def same by blast
qed

lemma cache_coherent_end_auction:
  assumes coh: "cache_coherent (bot_db s) (bot_cache s)"
  shows "cache_coherent (bot_db (snd (end_auction f now s aid)))
           (bot_cache (snd (end_auction f now s aid)))"
proof -
  let ?db = "bot_db s"
  obtain cached c1 where g1: "get_auction_cached f now ?db (bot_cache s) aid = (cached, c1)"
    by (cases "get_auction_cached f now ?db (bot_cache s) aid")
  have c1: "cache_coherent ?db c1"
    using cache_coherent_get_auction_cached[OF coh, of f now aid] g1 by simp
  obtain bl c2 where g2: "get_auction_bids_cached f now ?db c1 aid 1 = (bl, c2)"
    by (cases "get_auction_bids_cached f now ?db c1 aid 1")
  have c2: "cache_coherent ?db c2"
    using cache_coherent_get_auction_bids_cached[OF c1, of f now aid 1] g2 by simp
  let ?w = "case bl of [] \<Rightarrow> None | b # _ \<Rightarrow> Some (user_id b)"
  have c3: "cache_coherent (snd (db_end_auction f now ?db aid ?w)) (invalidate_auction_cache c2 aid)"
  proof (cases "f EndAuction")
    case True
    with c2 show ?thesis
      by (simp add: db_end_auction_def cache_coherent_invalidate_auction_cache)
  next
    case False
    show ?thesis
      by (rule cache_coherent_write[OF c2, where g = "\<lambda>r. if auction_id r = aid
              then r\<lparr>status := Ended, winner_id := ?w, last_updated := now\<rparr> else r"])
         (simp_all add: db_end_auction_def False)
  qed
  show ?thesis
    using g1 g2 c1 c2 c3
    by (auto simp: end_auction_def cancel_timer_def db_end_auction_def
             split: option.splits if_splits)
qed

lemma cache_coherent_bid_body:
  assumes coh: "cache_coherent (bot_db s) (bot_cache s)"
  shows "cache_coherent (bot_db (snd (bid_body io f now s uid aid cantidad)))
           (bot_cache (snd (bid_body io f now s uid aid cantidad)))"
proof -
  let ?db = "bot_db s"
  obtain cached c1 where g1: "get_auction_cached f now ?db (bot_cache s) aid = (cached, c1)"
    by (cases "get_auction_cached f now ?db (bot_cache s) aid")
  have c1: "cache_coherent ?db c1"
    using cache_coherent_get_auction_cached[OF coh, of f now aid] g1 by simp
  have c2: "cache_coherent (snd (place_bid_optimized f now ?db aid uid cantidad False))
              (invalidate_auction_cache c1 aid)"
  proof (cases rule: place_bid_cases[of f now ?db aid uid cantidad False])
    case (accepted info db')
    from place_bid_Accepted[OF accepted]
    have rows: "auctions db' = map (\<lambda>r. if auction_id r = aid
                   then r\<lparr>current_price := cantidad, bid_count := Suc (bid_count r),
                          last_updated := now\<rparr>
                   else r) (auctions ?db)"
      and bds: "bids db' = bids ?db @ [\<lparr>bid_id = Suc (bid_seq ?db), bid_auction_id = aid,
                   user_id = uid, amount = cantidad, bid_created_at = now,
                   is_quick_bid = False\<rparr>]"
      by auto
    have "cache_coherent db' (invalidate_auction_cache c1 aid)"
      by (rule cache_coherent_write[OF c1 _ _ rows]) (simp_all add: bds)
    with accepted show ?thesis by simp
  next
    case (rejected e)
    with c1 show ?thesis by (simp add: cache_coherent_invalidate_auction_cache)
  qed
  have rej: "\<And>e db'. place_bid_optimized f now ?db aid uid cantidad False = (Rejected e, db')
      \<Longrightarrow> db' = ?db"
    by (rule place_bid_Rejected)
  show ?thesis
    using g1 c1 c2 rej
    by (auto simp: bid_body_def followup_send_def set_user_cooldown_def Let_def
             split: option.splits if_splits prod.splits bid_result.splits)
qed

lemma cache_coherent_bid:
  assumes coh: "cache_coherent (bot_db s) (bot_cache s)"
  shows "cache_coherent (bot_db (snd (bid io f now s uid aid cantidad)))
           (bot_cache (snd (bid io f now s uid aid cantidad)))"
proof -
  let ?s1 = "set_bid_processing s uid True"
  have "cache_coherent (bot_db ?s1) (bot_cache ?s1)"
    using coh by (simp add: set_bid_processing_def)
  from cache_coherent_bid_body[OF this, of io f now uid aid cantidad] coh
  show ?thesis
    by (auto simp: bid_def bid_handler_def set_bid_processing_def Let_def
             split: prod.splits option.splits)
qed

lemma schedule_auction_end_frame:
  "bot_db (schedule_auction_end now s aid end_time) = bot_db s \<and>
   bot_cache (schedule_auction_end now s aid end_time) = bot_cache s"
  by (simp add: schedule_auction_end_def cancel_timer_def Let_def)

lemma cache_coherent_create_auction:
  assumes coh: "cache_coherent (bot_db s) (bot_cache s)"
  shows "cache_coherent (bot_db (snd (create_auction io f now s req mid)))
           (bot_cache (snd (create_auction io f now s req mid)))"
proof -
  let ?data = "\<lparr>data_guild_id = req_guild req,
               data_channel_id = req_channel req,
               data_creator_id = req_user req,
               data_title = titulo req,
               data_description = (case descripcion req of
                                     None \<Rightarrow> ''Sin descripcion''
                                   | Some d \<Rightarrow> if d = [] then ''Sin descripcion'' else d),
               data_starting_price = precio_inicial req,
               data_min_increment = incremento_minimo req,
               data_payment_material = material_pago req,
               data_image_urls = Some (map snd (imagenes req)),
               data_duration_hours = duracion req,
               data_created_at = now,
               data_ends_at = now + real_of_int (duracion req) * 3600,
               data_message_id = None\<rparr>"
  show ?thesis
  proof (cases "db_create_auction f now (bot_db s) ?data")
    case None
    with coh show ?thesis
      by (simp add: create_auction_def Let_def)
  next
    case (Some p)
    obtain aid db1 where p: "p = (aid, db1)" by (cases p)
    let ?c2 = "create_auction_embed f now db1
                 (preload_auction_data f now db1 (bot_cache s) aid) aid"
    have c0: "cache_coherent db1 (bot_cache s)"
      using cache_coherent_create[OF coh] Some p by simp
    then have c2: "cache_coherent db1 ?c2"
      by (intro cache_coherent_embed cache_coherent_preload)
    have c3: "cache_coherent (update_auction_message_id f now db1 aid mid)
                (invalidate_auction_cache ?c2 aid)"
    proof (cases "f UpdateMessageId")
      case True
      with c2 show ?thesis
        by (simp add: update_auction_message_id_def cache_coherent_invalidate_auction_cache)
    next
      case False
      show ?thesis
        by (rule cache_coherent_write[OF c2, where g = "\<lambda>r. if auction_id r = aid
                then r\<lparr>message_id := Some mid, last_updated := now\<rparr> else r"])
           (simp_all add: update_auction_message_id_def False)
    qed
    from coh c2 c3 Some p show ?thesis
      by (simp add: create_auction_def Let_def schedule_auction_end_frame)
  qed
qed

lemma foldl_invariant:
  assumes "P s" and "\<And>s x. P s \<Longrightarrow> P (F s x)"
  shows "P (foldl F s xs)"
  using assms(1) by (induction xs arbitrary: s) (auto intro: assms(2))

lemma cache_coherent_cleanup_expired_auctions:
  assumes "cache_coherent (bot_db s) (bot_cache s)"
  shows "cache_coherent (bot_db (cleanup_expired_auctions f now s))
           (bot_cache (cleanup_expired_auctions f now s))"
  unfolding cleanup_expired_auctions_def
  by (rule foldl_invariant[where P = "\<lambda>s. cache_coherent (bot_db s) (bot_cache s)"])
     (auto intro: assms cache_coherent_end_auction)

lemma cache_coherent_recover_guild:
  assumes "cache_coherent (bot_db s) (bot_cache s)"
  shows "cache_coherent (bot_db (recover_guild f now s g)) (bot_cache (recover_guild f now s g))"
  unfolding recover_guild_def
  by (rule foldl_invariant[where P = "\<lambda>s. cache_coherent (bot_db s) (bot_cache s)"])
     (auto intro: assms cache_coherent_end_auction simp: schedule_auction_end_frame)

lemma cache_coherent_recover_active_auctions:
  assumes "cache_coherent (bot_db s) (bot_cache s)"
  shows "cache_coherent (bot_db (recover_active_auctions f now s))
           (bot_cache (recover_active_auctions f now s))"
proof -
  let ?P = "\<lambda>s. cache_coherent (bot_db s) (bot_cache s)"
  have 1: "?P (foldl (\<lambda>s' a. snd (end_auction f now s' (auction_id a))) s
               (get_expired_auctions f now (bot_db s)))"
    by (rule foldl_invariant[where P = ?P]) (auto intro: assms cache_coherent_end_auction)
  show ?thesis
    unfolding recover_active_auctions_def Let_def
    by (rule foldl_invariant[where P = ?P]) (auto intro: 1 cache_coherent_recover_guild)
qed

lemma cache_coherent_bot_step:
  assumes "cache_coherent (bot_db s) (bot_cache s)"
  shows "cache_coherent (bot_db (bot_step e s)) (bot_cache (bot_step e s))"
proof -
  obtain io f now op where e: "e = (io, f, now, op)" by (cases e)
  show ?thesis
    unfolding e using assms
    by (cases op)
       (simp_all add: cache_coherent_create_auction cache_coherent_bid cache_coherent_end_auction
          cache_coherent_recover_active_auctions cache_coherent_cleanup_expired_auctions
          cache_coherent_get_auction_cached cache_coherent_get_auction_bids_cached
          cache_coherent_get_bid_count cache_coherent_cleanup_expired_cache)
qed

text \<open>
  Every state that the process reaches after its start has a cache that is coherent
  with the store: the hypothesis of the theorems about closing holds in all of them.
\<close>

lemma reachable_coherent:
  "cache_coherent (bot_db (bot_run (start_state d gs) evs))
     (bot_cache (bot_run (start_state d gs) evs))"
proof -
  have "\<And>s. cache_coherent (bot_db s) (bot_cache s) \<Longrightarrow>
          cache_coherent (bot_db (bot_run s evs)) (bot_cache (bot_run s evs))"
    by (induction evs) (auto intro: cache_coherent_bot_step)
  then show ?thesis
    by (simp add: start_state_def cache_coherent_empty)
qed

text \<open>
  An auction that the command creates has a positive starting price and a positive
  minimum increment: the premise of the price invariant holds for every auction that
  enters the store through \<^verbatim>\<open>/subasta\<close>.
\<close>

lemma create_auction_positive:
  assumes "a \<in> set (auctions (bot_db (snd (create_auction io f now s req mid))))"
    and "auction_id a \<notin> auction_id ` set (auctions (bot_db s))"
  shows "0 < min_increment a \<and> 0 < starting_price a \<and> current_price a = starting_price a"
  using assms
  by (auto simp: create_auction_def Let_def db_create_auction_def update_auction_message_id_def
        schedule_auction_end_frame rev_image_eqI
        split: if_splits option.splits)

end
